theory Spec2Isabelle
  imports Main
begin

section \<open>Time values of the JavaScript runtime\<close>

text \<open>
  The program computes with JavaScript \<^verbatim>\<open>Date\<close> objects. A \<^verbatim>\<open>Date\<close> holds a time
  value: a whole number of milliseconds since 1970-01-01T00:00:00Z, or NaN (an invalid
  date). The functions below are the abstract operations of the ECMAScript
  specification (section "Date Objects") under their own names. Flooring division is
  \<open>div\<close> on \<open>int\<close>, and \<open>mod\<close> has the sign of the divisor, as in ECMAScript's
  \<^verbatim>\<open>floor\<close> and \<^verbatim>\<open>modulo\<close>.
\<close>

definition msPerDay :: int where
  "msPerDay = 86400000"

definition msPerHour :: int where
  "msPerHour = 3600000"

definition msPerMinute :: int where
  "msPerMinute = 60000"

definition msPerSecond :: int where
  "msPerSecond = 1000"

definition Day :: "int \<Rightarrow> int" where
  "Day t = t div msPerDay"

definition DaysInYear :: "int \<Rightarrow> int" where
  "DaysInYear y =
     (if y mod 4 \<noteq> 0 then 365
      else if y mod 100 \<noteq> 0 then 366
      else if y mod 400 \<noteq> 0 then 365
      else 366)"

definition DayFromYear :: "int \<Rightarrow> int" where
  "DayFromYear y =
     365 * (y - 1970) + (y - 1969) div 4 - (y - 1901) div 100 + (y - 1601) div 400"

definition TimeFromYear :: "int \<Rightarrow> int" where
  "TimeFromYear y = msPerDay * DayFromYear y"

text \<open>
  ECMAScript defines \<^verbatim>\<open>YearFromTime(t)\<close> as the largest integer \<open>y\<close> with
  \<open>TimeFromYear y \<le> t\<close>. To compute it, \<open>year_up\<close> walks up from a year whose first
  day is not after the day of \<open>t\<close>; \<open>YearFromTime_largest\<close> below proves that the result
  is the year of the specification.
\<close>

function year_up :: "int \<Rightarrow> int \<Rightarrow> int" where
  "year_up d y = (if DayFromYear (y + 1) \<le> d then year_up d (y + 1) else y)"
  by pat_completeness auto
termination
proof (relation "measure (\<lambda>(d, y). nat (d - DayFromYear y))")
  show "wf (measure (\<lambda>(d, y). nat (d - DayFromYear y)))"
    by simp
next
  fix d y :: int
  assume le: "DayFromYear (y + 1) \<le> d"
  have lin: "a \<le> a' \<Longrightarrow> c' \<le> c + 1 \<Longrightarrow> e \<le> e' \<Longrightarrow>
      365 * (y - 1970) + a - c + e < 365 * (y + 1 - 1970) + a' - c' + e'"
    for a a' c c' e e' :: int
    by (simp add: algebra_simps)
  have "(y - 1969) div 4 \<le> (y + 1 - 1969) div 4"
    by (rule zdiv_mono1) simp_all
  moreover have "(y + 1 - 1901) div 100 \<le> (y - 1901 + 100) div 100"
    by (rule zdiv_mono1) simp_all
  then have "(y + 1 - 1901) div 100 \<le> (y - 1901) div 100 + 1"
    by simp
  moreover have "(y - 1601) div 400 \<le> (y + 1 - 1601) div 400"
    by (rule zdiv_mono1) simp_all
  ultimately have "DayFromYear y < DayFromYear (y + 1)"
    unfolding DayFromYear_def by (rule lin)
  with le show "((d, y + 1), (d, y)) \<in> measure (\<lambda>(d, y). nat (d - DayFromYear y))"
    by simp
qed

declare year_up.simps [simp del]

definition YearFromDay :: "int \<Rightarrow> int" where
  "YearFromDay d = year_up d (1970 + (if 0 \<le> d then d div 366 else d div 365))"

definition YearFromTime :: "int \<Rightarrow> int" where
  "YearFromTime t = YearFromDay (Day t)"

definition InLeapYear :: "int \<Rightarrow> int" where
  "InLeapYear t = (if DaysInYear (YearFromTime t) = 365 then 0 else 1)"

definition DayWithinYear :: "int \<Rightarrow> int" where
  "DayWithinYear t = Day t - DayFromYear (YearFromTime t)"

definition MonthFromTime :: "int \<Rightarrow> int" where
  "MonthFromTime t =
     (let d = DayWithinYear t; leap = InLeapYear t in
      if d < 31 then 0
      else if d < 59 + leap then 1
      else if d < 90 + leap then 2
      else if d < 120 + leap then 3
      else if d < 151 + leap then 4
      else if d < 181 + leap then 5
      else if d < 212 + leap then 6
      else if d < 243 + leap then 7
      else if d < 273 + leap then 8
      else if d < 304 + leap then 9
      else if d < 334 + leap then 10
      else 11)"

definition DateFromTime :: "int \<Rightarrow> int" where
  "DateFromTime t =
     (let d = DayWithinYear t; leap = InLeapYear t; m = MonthFromTime t in
      if m = 0 then d + 1
      else if m = 1 then d - 30
      else if m = 2 then d - 58 - leap
      else if m = 3 then d - 89 - leap
      else if m = 4 then d - 119 - leap
      else if m = 5 then d - 150 - leap
      else if m = 6 then d - 180 - leap
      else if m = 7 then d - 211 - leap
      else if m = 8 then d - 242 - leap
      else if m = 9 then d - 272 - leap
      else if m = 10 then d - 303 - leap
      else d - 333 - leap)"

definition HourFromTime :: "int \<Rightarrow> int" where
  "HourFromTime t = (t div msPerHour) mod 24"

definition MinFromTime :: "int \<Rightarrow> int" where
  "MinFromTime t = (t div msPerMinute) mod 60"

definition SecFromTime :: "int \<Rightarrow> int" where
  "SecFromTime t = (t div msPerSecond) mod 60"

definition msFromTime :: "int \<Rightarrow> int" where
  "msFromTime t = t mod msPerSecond"


text \<open>
  The runtime's local time zone is the parameter \<open>z\<close> of everything below that reads or
  builds a local time; its rules are data of the runtime (the time zone database), not of
  the program. A zone is the offset of its local time from UTC, in milliseconds, before
  the first of its transitions, and the list of its transitions in ascending order: the
  instant of each (daylight saving time starting or ending, or the zone changing its
  standard time) and the offset from that instant on. \<open>fixedZone tza\<close> is the zone that
  keeps the offset \<open>tza\<close>: UTC is \<open>fixedZone 0\<close>, and a zone nine hours ahead of UTC, as
  Asia/Tokyo has been since 1951, is \<open>fixedZone 32400000\<close>.
\<close>

record TimeZone =
  initialOffset :: int
  transitions :: "(int \<times> int) list"

definition fixedZone :: "int \<Rightarrow> TimeZone" where
  "fixedZone tza = \<lparr> initialOffset = tza, transitions = [] \<rparr>"

text \<open>
  \<^verbatim>\<open>GetNamedTimeZoneOffsetNanoseconds\<close>, in milliseconds: the offset of the zone at the
  instant \<open>t\<close>, which is the offset of the last transition not after \<open>t\<close>.
\<close>

fun offsetFrom :: "int \<Rightarrow> (int \<times> int) list \<Rightarrow> int \<Rightarrow> int" where
  "offsetFrom off [] t = off"
| "offsetFrom off ((at, off') # rest) t = (if at \<le> t then offsetFrom off' rest t else off)"

definition GetNamedTimeZoneOffset :: "TimeZone \<Rightarrow> int \<Rightarrow> int" where
  "GetNamedTimeZoneOffset z t = offsetFrom (initialOffset z) (transitions z) t"

definition LocalTime :: "TimeZone \<Rightarrow> int \<Rightarrow> int" where
  "LocalTime z t = t + GetNamedTimeZoneOffset z t"

text \<open>
  \<^verbatim>\<open>GetNamedTimeZoneEpochNanoseconds\<close>, in milliseconds: the instants at which the local
  time of the zone is \<open>t\<close>, in ascending order. There is none when a transition to a
  greater offset skips \<open>t\<close>, and more than one when a transition to a smaller offset
  repeats it. An instant whose local time is \<open>t\<close> is \<open>t - off\<close> for an offset \<open>off\<close> of the
  zone that is in force at that instant.
\<close>

definition offsets :: "TimeZone \<Rightarrow> int list" where
  "offsets z = initialOffset z # map snd (transitions z)"

definition GetNamedTimeZoneEpoch :: "TimeZone \<Rightarrow> int \<Rightarrow> int list" where
  "GetNamedTimeZoneEpoch z t =
     sort (map (\<lambda>off. t - off)
       (filter (\<lambda>off. GetNamedTimeZoneOffset z (t - off) = off) (remdups (offsets z))))"

text \<open>
  The local times at which the periods of constant offset end: the local time which
  the offset before a transition gives to the instant of that transition. The local
  times below such an end, down to the start of that period, have an instant.
\<close>

fun periodEnds :: "int \<Rightarrow> (int \<times> int) list \<Rightarrow> int list" where
  "periodEnds off [] = []"
| "periodEnds off ((at, off') # rest) = (at + off) # periodEnds off' rest"

text \<open>
  \<^verbatim>\<open>UTC(t)\<close>, the instant of the local time \<open>t\<close>. ECMAScript takes the first of the
  instants whose local time is \<open>t\<close>. When there is none, \<open>t\<close> being skipped, it takes the
  last of the instants of \<open>tBefore\<close>, the largest local time below \<open>t\<close> that has an
  instant. The result is \<open>t\<close> less the offset of the zone at the instant taken, so a
  skipped or repeated local time is read with the offset before the transition.
  \<open>tBefore\<close> is computed as the last millisecond of the latest period that ends at or
  before \<open>t\<close>; \<open>tBefore_largest\<close> below proves that this is the local time of the
  specification.
\<close>

definition tBefore :: "TimeZone \<Rightarrow> int \<Rightarrow> int" where
  "tBefore z t =
     Max (set (filter (\<lambda>e. e \<le> t) (periodEnds (initialOffset z) (transitions z)))) - 1"

definition UTC :: "TimeZone \<Rightarrow> int \<Rightarrow> int" where
  "UTC z t =
     (let possibleInstants = GetNamedTimeZoneEpoch z t;
          disambiguatedInstant =
            (if possibleInstants \<noteq> [] then hd possibleInstants
             else last (GetNamedTimeZoneEpoch z (tBefore z t)))
      in t - GetNamedTimeZoneOffset z disambiguatedInstant)"

definition MakeTime :: "int \<Rightarrow> int \<Rightarrow> int \<Rightarrow> int \<Rightarrow> int" where
  "MakeTime hour minute sec ms =
     hour * msPerHour + minute * msPerMinute + sec * msPerSecond + ms"

text \<open>
  The number of days of a year before its month \<open>mn\<close> (0 is January), \<open>leap\<close> being 1
  in a leap year and 0 otherwise: the lower bounds of the table of \<^verbatim>\<open>MonthFromTime\<close>.
\<close>

definition DaysBeforeMonth :: "int \<Rightarrow> int \<Rightarrow> int" where
  "DaysBeforeMonth leap mn =
     (if mn = 0 then 0
      else if mn = 1 then 31
      else if mn = 2 then 59 + leap
      else if mn = 3 then 90 + leap
      else if mn = 4 then 120 + leap
      else if mn = 5 then 151 + leap
      else if mn = 6 then 181 + leap
      else if mn = 7 then 212 + leap
      else if mn = 8 then 243 + leap
      else if mn = 9 then 273 + leap
      else if mn = 10 then 304 + leap
      else 334 + leap)"

text \<open>
  \<^verbatim>\<open>MakeDay(year, month, date)\<close>: ECMAScript takes the day number of the first day of
  month \<open>month mod 12\<close> of year \<open>year + floor(month / 12)\<close> and adds \<open>date - 1\<close>; so
  month 12 is January of the next year and date 0 is the last day of the month before.
\<close>

definition MakeDay :: "int \<Rightarrow> int \<Rightarrow> int \<Rightarrow> int" where
  "MakeDay year month date =
     (let ym = year + month div 12;
          mn = month mod 12
      in DayFromYear ym
         + DaysBeforeMonth (if DaysInYear ym = 365 then 0 else 1) mn
         + date - 1)"

definition MakeDate :: "int \<Rightarrow> int \<Rightarrow> int" where
  "MakeDate day time = day * msPerDay + time"

text \<open>
  A JavaScript number, as far as this program meets one: an integer or NaN. A \<^verbatim>\<open>Date\<close>
  object: an invalid date (time value NaN) or a time value. \<^verbatim>\<open>TimeClip\<close> makes every
  time value beyond 8.64e15 milliseconds from the epoch invalid.
\<close>

datatype number = NaN | Num int

datatype Date = InvalidDate | Date int

definition TimeClip :: "int \<Rightarrow> Date" where
  "TimeClip t = (if \<bar>t\<bar> > 8640000000000000 then InvalidDate else Date t)"

text \<open>\<^verbatim>\<open>a === b\<close>, \<^verbatim>\<open>a <= b\<close> and \<^verbatim>\<open>a + b\<close> on numbers: a comparison with NaN is false.\<close>

fun strict_eq :: "number \<Rightarrow> number \<Rightarrow> bool" where
  "strict_eq (Num a) (Num b) = (a = b)"
| "strict_eq _ _ = False"

fun num_le :: "number \<Rightarrow> number \<Rightarrow> bool" where
  "num_le (Num a) (Num b) = (a \<le> b)"
| "num_le _ _ = False"

fun num_plus :: "number \<Rightarrow> number \<Rightarrow> number" where
  "num_plus (Num a) (Num b) = Num (a + b)"
| "num_plus _ _ = NaN"

text \<open>The getters read the local time; on an invalid date each returns NaN.\<close>

definition getFullYear :: "TimeZone \<Rightarrow> Date \<Rightarrow> number" where
  "getFullYear z d =
     (case d of InvalidDate \<Rightarrow> NaN | Date t \<Rightarrow> Num (YearFromTime (LocalTime z t)))"

definition getMonth :: "TimeZone \<Rightarrow> Date \<Rightarrow> number" where
  "getMonth z d =
     (case d of InvalidDate \<Rightarrow> NaN | Date t \<Rightarrow> Num (MonthFromTime (LocalTime z t)))"

definition getDate :: "TimeZone \<Rightarrow> Date \<Rightarrow> number" where
  "getDate z d =
     (case d of InvalidDate \<Rightarrow> NaN | Date t \<Rightarrow> Num (DateFromTime (LocalTime z t)))"

definition getHours :: "TimeZone \<Rightarrow> Date \<Rightarrow> number" where
  "getHours z d =
     (case d of InvalidDate \<Rightarrow> NaN | Date t \<Rightarrow> Num (HourFromTime (LocalTime z t)))"

definition getMinutes :: "TimeZone \<Rightarrow> Date \<Rightarrow> number" where
  "getMinutes z d =
     (case d of InvalidDate \<Rightarrow> NaN | Date t \<Rightarrow> Num (MinFromTime (LocalTime z t)))"

text \<open>
  \<^verbatim>\<open>new Date(year, month, date)\<close>: a local midnight. A year from 0 to 99 stands for
  1900 + year (ECMAScript's \<^verbatim>\<open>MakeFullYear\<close>); a NaN argument gives an invalid date.
\<close>

definition MakeFullYear :: "int \<Rightarrow> int" where
  "MakeFullYear y = (if 0 \<le> y \<and> y \<le> 99 then 1900 + y else y)"

fun newDate :: "TimeZone \<Rightarrow> number \<Rightarrow> number \<Rightarrow> number \<Rightarrow> Date" where
  "newDate z (Num y) (Num m) (Num dt) =
     TimeClip (UTC z (MakeDate (MakeDay (MakeFullYear y) m dt) (MakeTime 0 0 0 0)))"
| "newDate z _ _ _ = InvalidDate"


section \<open>The ISO 8601 text of a date\<close>

text \<open>
  \<^verbatim>\<open>toISOString\<close> writes a valid date in UTC as \<^verbatim>\<open>YYYY-MM-DDTHH:mm:ss.sssZ\<close>, with the
  year as a sign and six digits when it is outside 0..9999, and throws a RangeError on an
  invalid date. \<open>digits k n\<close> is the number \<open>n\<close> in \<open>k\<close> decimal digits, padded with zeros
  on the left.
\<close>

definition digit :: "int \<Rightarrow> char" where
  "digit n = char_of (48 + n)"

fun digits :: "nat \<Rightarrow> int \<Rightarrow> string" where
  "digits 0 n = []"
| "digits (Suc k) n = digits k (n div 10) @ [digit (n mod 10)]"

definition year_text :: "int \<Rightarrow> string" where
  "year_text y =
     (if 0 \<le> y \<and> y \<le> 9999 then digits 4 y
      else (if y < 0 then ''-'' else ''+'') @ digits 6 \<bar>y\<bar>)"

definition iso_text :: "int \<Rightarrow> string" where
  "iso_text t =
     year_text (YearFromTime t) @ ''-'' @ digits 2 (MonthFromTime t + 1) @ ''-''
       @ digits 2 (DateFromTime t) @ ''T'' @ digits 2 (HourFromTime t) @ '':''
       @ digits 2 (MinFromTime t) @ '':'' @ digits 2 (SecFromTime t) @ ''.''
       @ digits 3 (msFromTime t) @ ''Z''"

text \<open>
  A thrown value (or the reason of a rejected promise): an \<^verbatim>\<open>Error\<close> object with its
  message, or a value that is not an \<^verbatim>\<open>Error\<close> object, given by its text. The
  RangeError of \<^verbatim>\<open>toISOString\<close> carries the message Node.js gives it.
\<close>

datatype thrown = Error string | NotAnError string

definition RangeError_invalid_time :: thrown where
  "RangeError_invalid_time = Error ''Invalid time value''"

fun toISOString :: "Date \<Rightarrow> thrown + string" where
  "toISOString InvalidDate = Inl RangeError_invalid_time"
| "toISOString (Date t) = Inr (iso_text t)"

text \<open>
  \<^verbatim>\<open>new Date(string)\<close>, for the one form of text this program stores: the full UTC
  form \<^verbatim>\<open>toISOString\<close> writes, \<^verbatim>\<open>YYYY-MM-DDTHH:mm:ss.sssZ\<close> with a year of four digits or
  of a sign and six digits (not \<^verbatim>\<open>-000000\<close>), a month from 01 to 12, a day of that month,
  and a time from 00:00:00.000 to 24:00:00.000. ECMAScript leaves the result on text
  outside its date-time format to the implementation, and its format has shorter forms
  and forms with an offset that this program never writes; the model answers with an
  invalid date on all of them, and no theorem below relies on that answer.
\<close>

definition digit_value :: "char \<Rightarrow> int option" where
  "digit_value c =
     (let n = of_char c :: int in if 48 \<le> n \<and> n \<le> 57 then Some (n - 48) else None)"

fun decimal_from :: "int \<Rightarrow> string \<Rightarrow> int option" where
  "decimal_from acc [] = Some acc"
| "decimal_from acc (c # cs) =
     (case digit_value c of
        None \<Rightarrow> None
      | Some v \<Rightarrow> decimal_from (10 * acc + v) cs)"

definition decimal :: "string \<Rightarrow> int option" where
  "decimal s = decimal_from 0 s"

definition DaysInMonth :: "int \<Rightarrow> int \<Rightarrow> int" where
  "DaysInMonth y mn =
     (if mn = 1 then (if DaysInYear y = 365 then 28 else 29)
      else if mn = 3 \<or> mn = 5 \<or> mn = 8 \<or> mn = 10 then 30
      else 31)"

definition parse_year :: "string \<Rightarrow> int option" where
  "parse_year ys =
     (case ys of
        [] \<Rightarrow> None
      | c # cs \<Rightarrow>
          if c = CHR ''+'' then decimal cs
          else if c = CHR ''-'' then
            (case decimal cs of
               None \<Rightarrow> None
             | Some y \<Rightarrow> if y = 0 then None else Some (- y))
          else decimal ys)"

definition parse_fields :: "string \<Rightarrow> string \<Rightarrow> Date" where
  "parse_fields ys r =
     (case parse_year ys of None \<Rightarrow> InvalidDate | Some y \<Rightarrow>
      case decimal (take 2 (drop 1 r)) of None \<Rightarrow> InvalidDate | Some mo \<Rightarrow>
      case decimal (take 2 (drop 4 r)) of None \<Rightarrow> InvalidDate | Some d \<Rightarrow>
      case decimal (take 2 (drop 7 r)) of None \<Rightarrow> InvalidDate | Some h \<Rightarrow>
      case decimal (take 2 (drop 10 r)) of None \<Rightarrow> InvalidDate | Some mi \<Rightarrow>
      case decimal (take 2 (drop 13 r)) of None \<Rightarrow> InvalidDate | Some sec \<Rightarrow>
      case decimal (take 3 (drop 16 r)) of None \<Rightarrow> InvalidDate | Some ms \<Rightarrow>
        if 1 \<le> mo \<and> mo \<le> 12 \<and> 1 \<le> d \<and> d \<le> DaysInMonth y (mo - 1)
           \<and> (h \<le> 23 \<or> h = 24 \<and> mi = 0 \<and> sec = 0 \<and> ms = 0) \<and> mi \<le> 59 \<and> sec \<le> 59
        then TimeClip (MakeDate (MakeDay y (mo - 1) d) (MakeTime h mi sec ms))
        else InvalidDate)"

definition Date_parse :: "string \<Rightarrow> Date" where
  "Date_parse s =
     (let ylen = (case s of
                    [] \<Rightarrow> 4
                  | c # _ \<Rightarrow> if c = CHR ''+'' \<or> c = CHR ''-'' then 7 else (4::nat));
          ys = take ylen s;
          r = drop ylen s
      in if length r = 20 \<and> r ! 0 = CHR ''-'' \<and> r ! 3 = CHR ''-'' \<and> r ! 6 = CHR ''T''
            \<and> r ! 9 = CHR '':'' \<and> r ! 12 = CHR '':'' \<and> r ! 15 = CHR ''.''
            \<and> r ! 19 = CHR ''Z''
         then parse_fields ys r
         else InvalidDate)"


section \<open>The feed aggregator (pages/api/public-calendar.ts)\<close>

text \<open>
  An entry of a parsed feed, with the fields of the interface \<^verbatim>\<open>ICalEvent\<close>; the
  program reads only \<^verbatim>\<open>type\<close> of an entry that is not a \<^verbatim>\<open>VEVENT\<close>. A parsed feed is
  the list \<^verbatim>\<open>Object.values\<close> returns for it.
\<close>

record ICalEvent =
  ical_type :: string
  ical_uid :: string
  ical_summary :: string
  ical_start :: Date
  ical_end :: Date
  ical_location :: "string option"
  ical_description :: "string option"

text \<open>
  The type \<^verbatim>\<open>CalendarEvent\<close>. An optional field that is \<^verbatim>\<open>undefined\<close> is \<open>None\<close>: the
  JSON text of the response leaves it out.
\<close>

datatype Source = calendar1 | calendar2

record DateTimeZone =
  dateTime :: string
  timeZone :: string

record Location =
  displayName :: string

record CalendarEvent =
  ev_id :: string
  ev_subject :: string
  ev_start :: DateTimeZone
  ev_end :: DateTimeZone
  ev_location :: "Location option"
  ev_description :: "string option"
  ev_source :: Source

text \<open>
  The callback of \<^verbatim>\<open>map\<close> in \<^verbatim>\<open>formatEvents\<close>. Its object literal evaluates
  \<^verbatim>\<open>event.start.toISOString()\<close> first and \<^verbatim>\<open>event.end.toISOString()\<close> second; either can
  throw. \<^verbatim>\<open>event.location ? ... : undefined\<close> tests truthiness: the empty string is
  falsy.
\<close>

definition formatEvent :: "Source \<Rightarrow> ICalEvent \<Rightarrow> thrown + CalendarEvent" where
  "formatEvent source event =
     (case toISOString (ical_start event) of
        Inl e \<Rightarrow> Inl e
      | Inr s \<Rightarrow>
          (case toISOString (ical_end event) of
             Inl e \<Rightarrow> Inl e
           | Inr e \<Rightarrow>
               Inr \<lparr> ev_id = ical_uid event,
                     ev_subject = ical_summary event,
                     ev_start = \<lparr> dateTime = s, timeZone = ''Asia/Tokyo'' \<rparr>,
                     ev_end = \<lparr> dateTime = e, timeZone = ''Asia/Tokyo'' \<rparr>,
                     ev_location =
                       (case ical_location event of
                          None \<Rightarrow> None
                        | Some l \<Rightarrow> if l = [] then None else Some \<lparr> displayName = l \<rparr>),
                     ev_description = ical_description event,
                     ev_source = source \<rparr>))"

text \<open>\<^verbatim>\<open>Array.prototype.map\<close> with a callback that may throw: the first throw ends it.\<close>

fun map_throwing :: "('a \<Rightarrow> thrown + 'b) \<Rightarrow> 'a list \<Rightarrow> thrown + 'b list" where
  "map_throwing f [] = Inr []"
| "map_throwing f (x # xs) =
     (case f x of
        Inl e \<Rightarrow> Inl e
      | Inr y \<Rightarrow> (case map_throwing f xs of Inl e \<Rightarrow> Inl e | Inr ys \<Rightarrow> Inr (y # ys)))"

definition formatEvents :: "ICalEvent list \<Rightarrow> Source \<Rightarrow> thrown + CalendarEvent list" where
  "formatEvents events source =
     map_throwing (formatEvent source) (filter (\<lambda>event. ical_type event = ''VEVENT'') events)"

text \<open>
  The messages of the responses, as the UTF-8 bytes of the source text.
\<close>

definition MSG_URL_NOT_SET :: string where
  "MSG_URL_NOT_SET = map char_of
       [227, 130, 171, 227, 131, 172, 227, 131, 179, 227, 131, 128, 227, 131, 188,
        85, 82, 76, 227, 129, 140, 232, 168, 173, 229, 174, 154, 227, 129, 149, 227,
        130, 140, 227, 129, 166, 227, 129, 132, 227, 129, 190, 227, 129, 155, 227,
        130, 147 :: nat]"

definition MSG_FETCH_FAILED :: string where
  "MSG_FETCH_FAILED = map char_of
       [227, 130, 171, 227, 131, 172, 227, 131, 179, 227, 131, 128, 227, 131, 188,
        227, 129, 174, 229, 143, 150, 229, 190, 151, 227, 129, 171, 229, 164, 177,
        230, 149, 151, 227, 129, 151, 227, 129, 190, 227, 129, 151, 227, 129, 159 :: nat]"

definition MSG_UNKNOWN_ERROR :: string where
  "MSG_UNKNOWN_ERROR = map char_of
       [230, 156, 170, 231, 159, 165, 227, 129, 174, 227, 130, 168, 227, 131, 169,
        227, 131, 188 :: nat]"

text \<open>
  The response: its status and its JSON body, \<^verbatim>\<open>{ error, details? }\<close> or \<^verbatim>\<open>{ value }\<close>.
\<close>

datatype body = ErrorBody string "string option" | ValueBody "CalendarEvent list"

record response =
  status :: nat
  json :: body

text \<open>
  \<^verbatim>\<open>await Promise.all([p1, p2])\<close>: both values when both promises fulfil, otherwise the
  reason of the promise that rejects first. Which of two rejections comes first is decided
  by the network, so it is an input: \<open>second_first\<close> holds when the second promise rejects
  before the first does.
\<close>

fun Promise_all :: "bool \<Rightarrow> thrown + 'a \<Rightarrow> thrown + 'b \<Rightarrow> thrown + ('a \<times> 'b)" where
  "Promise_all second_first (Inr a) (Inr b) = Inr (a, b)"
| "Promise_all second_first (Inl e) (Inr b) = Inl e"
| "Promise_all second_first (Inr a) (Inl e) = Inl e"
| "Promise_all second_first (Inl e1) (Inl e2) = Inl (if second_first then e2 else e1)"

text \<open>The \<^verbatim>\<open>catch\<close> block of the handler.\<close>

definition catch_response :: "thrown \<Rightarrow> response" where
  "catch_response error =
     \<lparr> status = 500,
       json = ErrorBody MSG_FETCH_FAILED
                (Some (case error of
                        Error message \<Rightarrow> message
                      | NotAnError _ \<Rightarrow> MSG_UNKNOWN_ERROR)) \<rparr>"

text \<open>
  The handler. Its inputs are the two environment variables (\<open>None\<close> when unset), the
  outcomes \<open>fetched1\<close> and \<open>fetched2\<close> the two calls of \<^verbatim>\<open>ical.async.fromURL\<close> have when
  they are made (a parsed feed, or the reason of the rejection), and \<open>second_first\<close>. It
  returns the response together with the list of the URLs it has started to fetch.
  \<^verbatim>\<open>!calendar1Url\<close> holds for an unset variable and for the empty string.
\<close>

definition handler ::
  "string option \<Rightarrow> string option \<Rightarrow> thrown + ICalEvent list \<Rightarrow> thrown + ICalEvent list
     \<Rightarrow> bool \<Rightarrow> response \<times> string list" where
  "handler calendar1Url calendar2Url fetched1 fetched2 second_first =
     (case (calendar1Url, calendar2Url) of
        (Some url1, Some url2) \<Rightarrow>
          if url1 = [] \<or> url2 = []
          then (\<lparr> status = 400, json = ErrorBody MSG_URL_NOT_SET None \<rparr>, [])
          else
            (case Promise_all second_first fetched1 fetched2 of
               Inl error \<Rightarrow> (catch_response error, [url1, url2])
             | Inr (events1, events2) \<Rightarrow>
                 (case formatEvents events1 calendar1 of
                    Inl error \<Rightarrow> (catch_response error, [url1, url2])
                  | Inr formatted1 \<Rightarrow>
                      (case formatEvents events2 calendar2 of
                         Inl error \<Rightarrow> (catch_response error, [url1, url2])
                       | Inr formatted2 \<Rightarrow>
                           (\<lparr> status = 200, json = ValueBody (formatted1 @ formatted2) \<rparr>,
                            [url1, url2]))))
      | _ \<Rightarrow> (\<lparr> status = 400, json = ErrorBody MSG_URL_NOT_SET None \<rparr>, []))"


section \<open>The timetable (components/TimetableCalendar.tsx)\<close>

record TimeSlot =
  name :: string
  startHour :: int
  startMinute :: int
  endHour :: int
  endMinute :: int

text \<open>
  The table of periods, with each name as the UTF-8 bytes of the source text. The
  repository holds two versions of the component: the later one (the file kept as
  \<^verbatim>\<open>src/unnamed/part_000\<close>) has a seventh period.
\<close>

definition TIME_SLOTS :: "TimeSlot list" where
  "TIME_SLOTS =
     [\<lparr> name = map char_of [49, 233, 153, 144 :: nat],
        startHour = 8, startMinute = 50, endHour = 10, endMinute = 20 \<rparr>,
      \<lparr> name = map char_of [50, 233, 153, 144 :: nat],
        startHour = 10, startMinute = 30, endHour = 12, endMinute = 0 \<rparr>,
      \<lparr> name = map char_of [230, 152, 188, 228, 188, 145, 227, 129, 191 :: nat],
        startHour = 12, startMinute = 0, endHour = 13, endMinute = 0 \<rparr>,
      \<lparr> name = map char_of [51, 233, 153, 144 :: nat],
        startHour = 13, startMinute = 0, endHour = 14, endMinute = 30 \<rparr>,
      \<lparr> name = map char_of [52, 233, 153, 144 :: nat],
        startHour = 14, startMinute = 40, endHour = 16, endMinute = 10 \<rparr>,
      \<lparr> name = map char_of [53, 233, 153, 144 :: nat],
        startHour = 16, startMinute = 20, endHour = 17, endMinute = 50 \<rparr>]"

definition TIME_SLOTS_part_000 :: "TimeSlot list" where
  "TIME_SLOTS_part_000 =
     [\<lparr> name = map char_of [49, 233, 153, 144 :: nat],
        startHour = 8, startMinute = 50, endHour = 10, endMinute = 20 \<rparr>,
      \<lparr> name = map char_of [50, 233, 153, 144 :: nat],
        startHour = 10, startMinute = 30, endHour = 12, endMinute = 0 \<rparr>,
      \<lparr> name = map char_of [230, 152, 188, 228, 188, 145, 227, 129, 191 :: nat],
        startHour = 12, startMinute = 0, endHour = 13, endMinute = 0 \<rparr>,
      \<lparr> name = map char_of [51, 233, 153, 144 :: nat],
        startHour = 13, startMinute = 0, endHour = 14, endMinute = 30 \<rparr>,
      \<lparr> name = map char_of [52, 233, 153, 144 :: nat],
        startHour = 14, startMinute = 40, endHour = 16, endMinute = 10 \<rparr>,
      \<lparr> name = map char_of [53, 233, 153, 144 :: nat],
        startHour = 16, startMinute = 20, endHour = 17, endMinute = 50 \<rparr>,
      \<lparr> name = map char_of [54, 233, 153, 144 :: nat],
        startHour = 18, startMinute = 0, endHour = 19, endMinute = 30 \<rparr>]"

text \<open>
  \<^verbatim>\<open>fetchEvents\<close>, from the response on: an error message (the state \<^verbatim>\<open>error\<close>) when the
  status is not one of 200..299, otherwise the events (the state \<^verbatim>\<open>events\<close>). The JSON
  text carries the body unchanged. \<^verbatim>\<open>data.error || ...\<close> and \<^verbatim>\<open>data.value || []\<close> fall
  back when the field is absent or falsy.
\<close>

definition fetchEvents :: "response \<Rightarrow> string + CalendarEvent list" where
  "fetchEvents r =
     (if 200 \<le> status r \<and> status r \<le> 299
      then Inr (case json r of ValueBody v \<Rightarrow> v | ErrorBody _ _ \<Rightarrow> [])
      else Inl (case json r of
                  ErrorBody e _ \<Rightarrow> if e = [] then MSG_FETCH_FAILED else e
                | ValueBody _ \<Rightarrow> MSG_FETCH_FAILED))"

text \<open>
  \<^verbatim>\<open>getDaysInMonth\<close>. The loop
  \<^verbatim>\<open>for (let d = 1; d <= lastDay.getDate(); d++) days.push(new Date(year, month, d))\<close>
  is \<open>days_loop\<close>, from the current \<open>d\<close> and the days pushed so far.
\<close>

function days_loop ::
  "TimeZone \<Rightarrow> number \<Rightarrow> number \<Rightarrow> Date \<Rightarrow> int \<Rightarrow> Date list \<Rightarrow> Date list" where
  "days_loop z year month lastDay d days =
     (if num_le (Num d) (getDate z lastDay)
      then days_loop z year month lastDay (d + 1) (days @ [newDate z year month (Num d)])
      else days)"
  by pat_completeness auto
termination
proof (relation "measure (\<lambda>(z, year, month, lastDay, d, days).
    case getDate z lastDay of NaN \<Rightarrow> 0 | Num n \<Rightarrow> nat (n + 1 - d))")
  show "wf (measure (\<lambda>(z, year, month, lastDay, d, days).
    case getDate z lastDay of NaN \<Rightarrow> 0 | Num n \<Rightarrow> nat (n + 1 - d)))"
    by simp
next
  fix z :: TimeZone and year month :: number and lastDay :: Date and d :: int
    and days :: "Date list"
  assume "num_le (Num d) (getDate z lastDay)"
  then show "((z, year, month, lastDay, d + 1, days @ [newDate z year month (Num d)]),
      (z, year, month, lastDay, d, days))
    \<in> measure (\<lambda>(z, year, month, lastDay, d, days).
        case getDate z lastDay of NaN \<Rightarrow> 0 | Num n \<Rightarrow> nat (n + 1 - d))"
    by (cases "getDate z lastDay") simp_all
qed

declare days_loop.simps [simp del]

definition getDaysInMonth :: "TimeZone \<Rightarrow> Date \<Rightarrow> Date list" where
  "getDaysInMonth z currentDate =
     (let year = getFullYear z currentDate;
          month = getMonth z currentDate;
          lastDay = newDate z year (num_plus month (Num 1)) (Num 0)
      in days_loop z year month lastDay 1 [])"

text \<open>\<^verbatim>\<open>getEventsForTimeSlot\<close>, on the state \<^verbatim>\<open>events\<close>.\<close>

definition getEventsForTimeSlot ::
  "TimeZone \<Rightarrow> CalendarEvent list \<Rightarrow> Date \<Rightarrow> TimeSlot \<Rightarrow> CalendarEvent list" where
  "getEventsForTimeSlot z events date timeSlot =
     filter (\<lambda>event.
        let eventDate = Date_parse (dateTime (ev_start event));
            eventHour = getHours z eventDate;
            eventMinute = getMinutes z eventDate
        in strict_eq (getDate z eventDate) (getDate z date)
           \<and> strict_eq (getMonth z eventDate) (getMonth z date)
           \<and> strict_eq (getFullYear z eventDate) (getFullYear z date)
           \<and> strict_eq eventHour (Num (startHour timeSlot))
           \<and> strict_eq eventMinute (Num (startMinute timeSlot)))
       events"

text \<open>
  The body of the table:
  \<^verbatim>\<open>days.map(day => TIME_SLOTS.map(slot => getEventsForTimeSlot(day, slot)))\<close>,
  one row for each day and in it one cell for each period. The table of periods is a
  parameter, to cover both versions of \<^verbatim>\<open>TIME_SLOTS\<close>.
\<close>

definition tableCells ::
  "TimeZone \<Rightarrow> TimeSlot list \<Rightarrow> CalendarEvent list \<Rightarrow> Date \<Rightarrow> CalendarEvent list list list" where
  "tableCells z slots events currentDate =
     map (\<lambda>day. map (\<lambda>slot. getEventsForTimeSlot z events day slot) slots)
       (getDaysInMonth z currentDate)"

text \<open>
  The time value of the local midnight that starts day \<open>k\<close> of month \<open>m\<close> of year \<open>y\<close>
  in a zone that keeps the offset \<open>tza\<close>.
\<close>

definition localMidnight :: "int \<Rightarrow> int \<Rightarrow> int \<Rightarrow> int \<Rightarrow> int" where
  "localMidnight tza y m k = MakeDay y m k * msPerDay - tza"

section \<open>Notions for the statements\<close>

text \<open>
  A \<^verbatim>\<open>Date\<close> object of the runtime holds NaN or a time value of at most 8.64e15
  milliseconds from the epoch: every constructor ends with \<^verbatim>\<open>TimeClip\<close>. The dates of a
  parsed feed are inputs, so the statements about them assume it.
\<close>

definition inRange :: "Date \<Rightarrow> bool" where
  "inRange d = (case d of InvalidDate \<Rightarrow> True | Date t \<Rightarrow> \<bar>t\<bar> \<le> 8640000000000000)"

text \<open>
  The year, month (0 is January), day of the month, hour and minute of a date, read in
  the zone \<open>z\<close>; \<open>None\<close> for an invalid date.
\<close>

definition localFields :: "TimeZone \<Rightarrow> Date \<Rightarrow> (int \<times> int \<times> int \<times> int \<times> int) option" where
  "localFields z d =
     (case d of
        InvalidDate \<Rightarrow> None
      | Date t \<Rightarrow>
          Some (YearFromTime (LocalTime z t), MonthFromTime (LocalTime z t),
                DateFromTime (LocalTime z t), HourFromTime (LocalTime z t),
                MinFromTime (LocalTime z t)))"

text \<open>
  The start of an event, read in the zone \<open>z\<close>, falls on the day which
  \<open>day\<close> is in that zone, at the start hour and minute of \<open>slot\<close>.
\<close>

definition startsInCell :: "TimeZone \<Rightarrow> Date \<Rightarrow> TimeSlot \<Rightarrow> CalendarEvent \<Rightarrow> bool" where
  "startsInCell z day slot ev =
     (case (localFields z (Date_parse (dateTime (ev_start ev))), localFields z day) of
        (Some (y, m, d, h, mi), Some (y', m', d', h', mi')) \<Rightarrow>
          y = y' \<and> m = m' \<and> d = d' \<and> h = startHour slot \<and> mi = startMinute slot
      | _ \<Rightarrow> False)"


section \<open>Examples\<close>

text \<open>
  Feed A holds a timezone entry and a meeting on 2024-03-05 from 08:50 to 10:20 in Tokyo
  (2024-03-04T23:50Z to 2024-03-05T01:20Z); feed B holds a lunch on 2024-03-04 from
  12:00 to 13:00 in Tokyo. \<open>example_meeting_event\<close> is the event the aggregator makes of
  the meeting. \<open>example_reversed\<close> is the meeting with start and end exchanged, and
  \<open>example_evening\<close> starts on 2024-03-05 at 17:50 in Tokyo, which is 08:50 in UTC, and
  \<open>example_evening_event\<close> is the event the aggregator makes of it.
\<close>

definition example_meeting :: ICalEvent where
  "example_meeting =
     \<lparr> ical_type = ''VEVENT'', ical_uid = ''a1'', ical_summary = ''Meeting'',
       ical_start = Date 1709596200000, ical_end = Date 1709601600000,
       ical_location = Some ''6F'', ical_description = None \<rparr>"

definition example_feedA :: "ICalEvent list" where
  "example_feedA =
     [\<lparr> ical_type = ''VTIMEZONE'', ical_uid = [], ical_summary = [],
         ical_start = InvalidDate, ical_end = InvalidDate,
         ical_location = None, ical_description = None \<rparr>,
      example_meeting]"

definition example_feedB :: "ICalEvent list" where
  "example_feedB =
     [\<lparr> ical_type = ''VEVENT'', ical_uid = ''b1'', ical_summary = ''Lunch'',
         ical_start = Date 1709521200000, ical_end = Date 1709524800000,
         ical_location = None, ical_description = Some ''bring food'' \<rparr>]"

definition example_meeting_event :: CalendarEvent where
  "example_meeting_event =
     \<lparr> ev_id = ''a1'', ev_subject = ''Meeting'',
       ev_start = \<lparr> dateTime = ''2024-03-04T23:50:00.000Z'', timeZone = ''Asia/Tokyo'' \<rparr>,
       ev_end = \<lparr> dateTime = ''2024-03-05T01:20:00.000Z'', timeZone = ''Asia/Tokyo'' \<rparr>,
       ev_location = Some \<lparr> displayName = ''6F'' \<rparr>, ev_description = None,
       ev_source = calendar1 \<rparr>"

definition example_reversed :: ICalEvent where
  "example_reversed =
     \<lparr> ical_type = ''VEVENT'', ical_uid = ''r1'', ical_summary = ''Reversed'',
       ical_start = Date 1709601600000, ical_end = Date 1709596200000,
       ical_location = None, ical_description = None \<rparr>"

definition example_evening :: ICalEvent where
  "example_evening =
     \<lparr> ical_type = ''VEVENT'', ical_uid = ''e1'', ical_summary = ''Evening'',
       ical_start = Date 1709628600000, ical_end = Date 1709634000000,
       ical_location = None, ical_description = None \<rparr>"

definition example_evening_event :: CalendarEvent where
  "example_evening_event =
     \<lparr> ev_id = ''e1'', ev_subject = ''Evening'',
       ev_start = \<lparr> dateTime = ''2024-03-05T08:50:00.000Z'', timeZone = ''Asia/Tokyo'' \<rparr>,
       ev_end = \<lparr> dateTime = ''2024-03-05T10:20:00.000Z'', timeZone = ''Asia/Tokyo'' \<rparr>,
       ev_location = None, ev_description = None, ev_source = calendar1 \<rparr>"




section \<open>Years and days\<close>

text \<open>
  The first day of a year is \<open>DaysInYear\<close> days before the first day of the next, so
  \<open>DayFromYear\<close> is strictly increasing and \<open>YearFromDay d\<close> is the one year \<open>y\<close> with
  \<open>DayFromYear y \<le> d < DayFromYear (y + 1)\<close>.
\<close>

lemma div_succ:
  fixes n k :: int
  assumes "0 < k"
  shows "(n + 1) div k = n div k + (if (n + 1) mod k = 0 then 1 else 0)"
proof -
  define q r where "q = n div k" and "r = n mod k"
  have n: "n = k * q + r"
    by (simp add: q_def r_def)
  have b: "0 \<le> r" "r < k"
    using assms by (simp_all add: r_def)
  show ?thesis
  proof (cases "r = k - 1")
    case True
    have "n + 1 = k * (q + 1) + 0"
      using True n by (simp add: algebra_simps)
    then have "(n + 1) div k = q + 1" "(n + 1) mod k = 0"
      using assms by (auto intro: int_div_pos_eq int_mod_pos_eq)
    then show ?thesis by (simp add: q_def)
  next
    case False
    have eq: "n + 1 = k * q + (r + 1)"
      using n by simp
    have r: "0 \<le> r + 1" "r + 1 < k"
      using b False by linarith+
    have "(n + 1) div k = q" 
      using eq r by (rule int_div_pos_eq)
    moreover have "(n + 1) mod k = r + 1"
      using eq r by (rule int_mod_pos_eq)
    ultimately show ?thesis using b by (simp add: q_def)
  qed
qed

lemma mod_shift: "(y - k * m) mod k = y mod (k::int)"
proof -
  have "(y + k * (- m)) mod k = y mod k"
    by (rule mod_mult_self2)
  then show ?thesis by simp
qed


lemma mod_100_4: "y mod 100 = 0 \<Longrightarrow> y mod 4 = (0::int)"
proof -
  assume h: "y mod 100 = 0"
  have "y mod 100 mod 4 = y mod 4"
    by (rule mod_mod_cancel) simp
  with h show ?thesis by simp
qed

lemma mod_400_100: "y mod 400 = 0 \<Longrightarrow> y mod 100 = (0::int)"
proof -
  assume h: "y mod 400 = 0"
  have "y mod 400 mod 100 = y mod 100"
    by (rule mod_mod_cancel) simp
  with h show ?thesis by simp
qed

lemma DayFromYear_Suc: "DayFromYear (y + 1) = DayFromYear y + DaysInYear y"
proof -
  have m4: "(y - 1969 + 1) mod 4 = y mod 4"
    using mod_shift [of y 4 492] by simp
  have m100: "(y - 1901 + 1) mod 100 = y mod 100"
    using mod_shift [of y 100 19] by simp
  have m400: "(y - 1601 + 1) mod 400 = y mod 400"
    using mod_shift [of y 400 4] by simp
  have a: "(y - 1969 + 1) div 4 = (y - 1969) div 4 + (if y mod 4 = 0 then 1 else 0)"
    by (simp only: div_succ [of 4 "y - 1969"] m4)
  have b: "(y - 1901 + 1) div 100 = (y - 1901) div 100 + (if y mod 100 = 0 then 1 else 0)"
    by (simp only: div_succ [of 100 "y - 1901"] m100)
  have c: "(y - 1601 + 1) div 400 = (y - 1601) div 400 + (if y mod 400 = 0 then 1 else 0)"
    by (simp only: div_succ [of 400 "y - 1601"] m400)
  have e: "y + 1 - 1969 = y - 1969 + 1" "y + 1 - 1901 = y - 1901 + 1"
    "y + 1 - 1601 = y - 1601 + 1"
    by simp_all
  show ?thesis
    unfolding DayFromYear_def DaysInYear_def e a b c
    using mod_100_4 [of y] mod_400_100 [of y] by auto
qed


lemma DaysInYear_cases: "DaysInYear y = 365 \<or> DaysInYear y = 366"
  by (simp add: DaysInYear_def)

lemma DayFromYear_less_Suc: "DayFromYear y < DayFromYear (y + 1)"
  using DaysInYear_cases [of y] by (auto simp: DayFromYear_Suc)

lemma DayFromYear_mono: "y \<le> y' \<Longrightarrow> DayFromYear y \<le> DayFromYear y'"
proof (induction y' rule: int_ge_induct)
  case base
  show ?case by simp
next
  case (step i)
  then show ?case
    using DayFromYear_less_Suc [of i] by simp
qed

lemma DayFromYear_strict_mono: "y < y' \<Longrightarrow> DayFromYear y < DayFromYear y'"
  using DayFromYear_mono [of "y + 1" y'] DayFromYear_less_Suc [of y] by simp

lemma year_up_bounds:
  "DayFromYear y \<le> d \<Longrightarrow>
     DayFromYear (year_up d y) \<le> d \<and> d < DayFromYear (year_up d y + 1)"
proof (induction d y rule: year_up.induct)
  case (1 d y)
  show ?case
  proof (cases "DayFromYear (y + 1) \<le> d")
    case True
    with "1.IH" show ?thesis
      by (subst (1 2) year_up.simps) simp
  next
    case False
    with "1.prems" show ?thesis
      by (subst (1 2) year_up.simps) simp
  qed
qed

lemma DayFromYear_1970: "DayFromYear 1970 = 0"
  by (simp add: DayFromYear_def)

lemma DayFromYear_upper: "0 \<le> q \<Longrightarrow> DayFromYear (1970 + q) \<le> 366 * q"
proof (induction q rule: int_ge_induct)
  case base
  show ?case by (simp add: DayFromYear_1970)
next
  case (step i)
  have "DayFromYear (1970 + (i + 1)) = DayFromYear (1970 + i) + DaysInYear (1970 + i)"
    using DayFromYear_Suc [of "1970 + i"] by (simp add: add.assoc)
  with step DaysInYear_cases [of "1970 + i"] show ?case by auto
qed

lemma DayFromYear_upper_neg: "q \<le> 0 \<Longrightarrow> DayFromYear (1970 + q) \<le> 365 * q"
proof (induction q rule: int_le_induct)
  case base
  show ?case by (simp add: DayFromYear_1970)
next
  case (step i)
  have "DayFromYear (1970 + i) = DayFromYear (1970 + (i - 1)) + DaysInYear (1970 + (i - 1))"
    using DayFromYear_Suc [of "1970 + (i - 1)"] by simp
  with step DaysInYear_cases [of "1970 + (i - 1)"] show ?case by auto
qed

lemma year_start_le:
  "DayFromYear (1970 + (if 0 \<le> d then d div 366 else d div 365)) \<le> d"
proof (cases "0 \<le> d")
  case True
  then have "0 \<le> d div 366" by simp
  then have "DayFromYear (1970 + d div 366) \<le> 366 * (d div 366)"
    by (rule DayFromYear_upper)
  also have "\<dots> \<le> d" by simp
  finally show ?thesis using True by simp
next
  case False
  then have "d div 365 \<le> 0" by (simp add: div_int_pos_iff not_le) 
  then have "DayFromYear (1970 + d div 365) \<le> 365 * (d div 365)"
    by (rule DayFromYear_upper_neg)
  also have "\<dots> \<le> d" by simp
  finally show ?thesis using False by simp
qed

lemma YearFromDay_bounds:
  "DayFromYear (YearFromDay d) \<le> d" "d < DayFromYear (YearFromDay d + 1)"
  using year_up_bounds [OF year_start_le [of d]] by (simp_all add: YearFromDay_def)

lemma YearFromDay_unique:
  assumes "DayFromYear y \<le> d" and "d < DayFromYear (y + 1)"
  shows "YearFromDay d = y"
proof (rule ccontr)
  assume ne: "YearFromDay d \<noteq> y"
  show False
  proof (cases "YearFromDay d < y")
    case True
    then have "DayFromYear (YearFromDay d + 1) \<le> DayFromYear y"
      by (intro DayFromYear_mono) simp
    with assms(1) YearFromDay_bounds(2) [of d] show False by simp
  next
    case False
    with ne have "DayFromYear (y + 1) \<le> DayFromYear (YearFromDay d)"
      by (intro DayFromYear_mono) simp
    with assms(2) YearFromDay_bounds(1) [of d] show False by simp
  qed
qed

section \<open>Months and days of the month\<close>

lemma YearFromTime_bounds:
  "DayFromYear (YearFromTime t) \<le> Day t" "Day t < DayFromYear (YearFromTime t + 1)"
  by (simp_all add: YearFromTime_def YearFromDay_bounds)

lemma YearFromTime_largest:
  "TimeFromYear (YearFromTime t) \<le> t \<and> (\<forall>y. TimeFromYear y \<le> t \<longrightarrow> y \<le> YearFromTime t)"
proof -
  have le: "msPerDay * (t div msPerDay) \<le> t"
    by (simp add: msPerDay_def)
  have "msPerDay * DayFromYear (YearFromTime t) \<le> msPerDay * Day t"
    using YearFromTime_bounds(1) [of t] by (simp add: msPerDay_def)
  with le have 1: "TimeFromYear (YearFromTime t) \<le> t"
    by (simp add: TimeFromYear_def Day_def)
  have 2: "y \<le> YearFromTime t" if "TimeFromYear y \<le> t" for y
  proof (rule ccontr)
    assume "\<not> y \<le> YearFromTime t"
    then have "DayFromYear (YearFromTime t + 1) \<le> DayFromYear y"
      by (intro DayFromYear_mono) simp
    with YearFromTime_bounds(2) [of t] have "Day t < DayFromYear y"
      by simp
    moreover have "msPerDay * DayFromYear y div msPerDay \<le> t div msPerDay"
      using that by (intro zdiv_mono1) (simp_all add: TimeFromYear_def msPerDay_def)
    then have "DayFromYear y \<le> Day t"
      by (simp add: Day_def msPerDay_def)
    ultimately show False by simp
  qed
  from 1 2 show ?thesis by blast
qed

lemma InLeapYear_eq: "DaysInYear (YearFromTime t) = 365 + InLeapYear t"
  using DaysInYear_cases [of "YearFromTime t"] by (auto simp: InLeapYear_def)

lemma InLeapYear_cases: "InLeapYear t = 0 \<or> InLeapYear t = 1"
  by (simp add: InLeapYear_def)

lemma DayWithinYear_bounds: "0 \<le> DayWithinYear t" "DayWithinYear t < 365 + InLeapYear t"
  using YearFromTime_bounds [of t] DayFromYear_Suc [of "YearFromTime t"] InLeapYear_eq [of t]
  by (simp_all add: DayWithinYear_def)

lemma MonthFromTime_bounds: "0 \<le> MonthFromTime t" "MonthFromTime t \<le> 11"
  by (simp_all add: MonthFromTime_def Let_def)

lemma int_0_11: "0 \<le> m \<Longrightarrow> m \<le> 11 \<Longrightarrow>
  m = 0 \<or> m = 1 \<or> m = 2 \<or> m = 3 \<or> m = 4 \<or> m = 5 \<or> m = 6 \<or> m = 7 \<or> m = 8 \<or> m = 9
    \<or> m = 10 \<or> m = (11::int)"
  by arith

lemma DateFromTime_eq:
  "DateFromTime t = DayWithinYear t - DaysBeforeMonth (InLeapYear t) (MonthFromTime t) + 1"
  using int_0_11 [OF MonthFromTime_bounds, of t]
  by (auto simp: DateFromTime_def DaysBeforeMonth_def Let_def)

lemma DateFromTime_bounds:
  "1 \<le> DateFromTime t" "DateFromTime t \<le> DaysInMonth (YearFromTime t) (MonthFromTime t)"
proof -
  have l: "InLeapYear t = 0 \<or> InLeapYear t = 1" by (rule InLeapYear_cases)
  have b: "0 \<le> DayWithinYear t" "DayWithinYear t < 365 + InLeapYear t"
    by (rule DayWithinYear_bounds)+
  show "1 \<le> DateFromTime t"
    using l b unfolding DateFromTime_def MonthFromTime_def Let_def
    by (auto split: if_splits)
  show "DateFromTime t \<le> DaysInMonth (YearFromTime t) (MonthFromTime t)"
    using l b InLeapYear_eq [of t]
    unfolding DateFromTime_def MonthFromTime_def Let_def DaysInMonth_def
    by (auto split: if_splits)
qed


lemma MakeDay_in_year:
  "0 \<le> mn \<Longrightarrow> mn \<le> 11 \<Longrightarrow>
     MakeDay y mn dt =
       DayFromYear y + DaysBeforeMonth (if DaysInYear y = 365 then 0 else 1) mn + dt - 1"
  by (simp add: MakeDay_def)

lemma MakeDay_fields:
  "MakeDay (YearFromTime t) (MonthFromTime t) (DateFromTime t) = Day t"
  using MonthFromTime_bounds [of t]
  by (simp add: MakeDay_in_year DateFromTime_eq DayWithinYear_def InLeapYear_def)

lemma DaysBeforeMonth_in_year:
  assumes "0 \<le> mn" "mn \<le> 11" "1 \<le> dt" "dt \<le> DaysInMonth y mn"
  shows "0 \<le> DaysBeforeMonth (if DaysInYear y = 365 then 0 else 1) mn + dt - 1"
    and "DaysBeforeMonth (if DaysInYear y = 365 then 0 else 1) mn + dt - 1 < DaysInYear y"
  using int_0_11 [OF assms(1,2)] assms(3,4) DaysInYear_cases [of y]
  by (auto simp: DaysBeforeMonth_def DaysInMonth_def)

lemma month_table:
  fixes l mn dt :: int
  assumes "l = 0 \<or> l = 1" "0 \<le> mn" "mn \<le> 11" "1 \<le> dt"
    and "dt \<le> (if mn = 1 then 28 + l else if mn = 3 \<or> mn = 5 \<or> mn = 8 \<or> mn = 10 then 30 else 31)"
    and "w = DaysBeforeMonth l mn + dt - 1"
  shows "(if w < 31 then 0
      else if w < 59 + l then 1
      else if w < 90 + l then 2
      else if w < 120 + l then 3
      else if w < 151 + l then 4
      else if w < 181 + l then 5
      else if w < 212 + l then 6
      else if w < 243 + l then 7
      else if w < 273 + l then 8
      else if w < 304 + l then 9
      else if w < 334 + l then 10
      else 11) = mn"
  using int_0_11 [OF assms(2,3)] assms(1,4,5,6)
  apply (elim disjE)
  apply (simp_all add: DaysBeforeMonth_def)
  done


lemma fields_of_MakeDay:
  assumes "0 \<le> mn" "mn \<le> 11" "1 \<le> dt" "dt \<le> DaysInMonth y mn"
    and "Day t = MakeDay y mn dt"
  shows "YearFromTime t = y" "MonthFromTime t = mn" "DateFromTime t = dt"
proof -
  define l :: int where "l = (if DaysInYear y = 365 then 0 else 1)"
  have l01: "l = 0 \<or> l = 1"
    by (simp add: l_def)
  have d: "Day t = DayFromYear y + (DaysBeforeMonth l mn + dt - 1)"
    using assms(1,2,5) by (simp add: MakeDay_in_year l_def)
  have b: "0 \<le> DaysBeforeMonth l mn + dt - 1" "DaysBeforeMonth l mn + dt - 1 < DaysInYear y"
    using DaysBeforeMonth_in_year [OF assms(1-4)] by (simp_all add: l_def)
  show y: "YearFromTime t = y"
    unfolding YearFromTime_def
    using d b by (intro YearFromDay_unique) (simp_all add: DayFromYear_Suc)
  have l: "InLeapYear t = l"
    by (simp add: InLeapYear_def y l_def)
  have w: "DayWithinYear t = DaysBeforeMonth l mn + dt - 1"
    using d by (simp add: DayWithinYear_def y)
  have dim: "dt \<le> (if mn = 1 then 28 + l
               else if mn = 3 \<or> mn = 5 \<or> mn = 8 \<or> mn = 10 then 30 else 31)"
    using assms(4) DaysInYear_cases [of y] by (auto simp: DaysInMonth_def l_def)
  show m: "MonthFromTime t = mn"
    unfolding MonthFromTime_def Let_def l
    by (rule month_table [OF l01 assms(1,2,3) dim w])
  show "DateFromTime t = dt"
    by (simp add: DateFromTime_eq l w m)
qed

lemma DaysInMonth_bounds: "28 \<le> DaysInMonth y m" "DaysInMonth y m \<le> 31"
  by (simp_all add: DaysInMonth_def)

text \<open>
  \<open>MakeDay\<close> is the operation of the specification: the day it takes for date 1 is a
  day of the stated year and month with day of the month 1.
\<close>

lemma MakeDay_first_of_month:
  assumes "Day t = MakeDay year month 1"
  shows "YearFromTime t = year + month div 12" and "MonthFromTime t = month mod 12"
    and "DateFromTime t = 1" and "MakeDay year month dt = Day t + dt - 1"
proof -
  have m: "0 \<le> month mod 12" "month mod 12 \<le> 11"
    by simp_all
  have d: "Day t = MakeDay (year + month div 12) (month mod 12) 1"
    using assms by (simp add: MakeDay_def)
  have one: "(1::int) \<le> 1" "1 \<le> DaysInMonth (year + month div 12) (month mod 12)"
    using DaysInMonth_bounds(1) [of "year + month div 12" "month mod 12"] by simp_all
  show "YearFromTime t = year + month div 12" "MonthFromTime t = month mod 12"
    "DateFromTime t = 1"
    using fields_of_MakeDay [OF m one d] by simp_all
  show "MakeDay year month dt = Day t + dt - 1"
    using assms by (simp add: MakeDay_def Let_def)
qed

lemma DaysBeforeMonth_next:
  assumes "0 \<le> mn" "mn \<le> 10"
  shows "DaysBeforeMonth (if DaysInYear y = 365 then 0 else 1) (mn + 1) =
           DaysBeforeMonth (if DaysInYear y = 365 then 0 else 1) mn + DaysInMonth y mn"
proof -
  have "mn = 0 \<or> mn = 1 \<or> mn = 2 \<or> mn = 3 \<or> mn = 4 \<or> mn = 5 \<or> mn = 6 \<or> mn = 7 \<or> mn = 8
      \<or> mn = 9 \<or> mn = 10"
    using assms by arith
  then show ?thesis
    using DaysInYear_cases [of y]
    by (elim disjE) (auto simp: DaysBeforeMonth_def DaysInMonth_def)
qed

lemma MakeDay_next_month_0:
  assumes "0 \<le> mn" "mn \<le> 11"
  shows "MakeDay y (mn + 1) 0 = MakeDay y mn (DaysInMonth y mn)"
proof (cases "mn = 11")
  case True
  have "MakeDay y 12 0 = DayFromYear (y + 1) - 1"
    by (simp add: MakeDay_def DaysBeforeMonth_def)
  moreover have "MakeDay y 11 (DaysInMonth y 11) = DayFromYear y + DaysInYear y - 1"
    using DaysInYear_cases [of y]
    by (auto simp: MakeDay_def DaysBeforeMonth_def DaysInMonth_def)
  ultimately show ?thesis
    using True by (simp add: DayFromYear_Suc)
next
  case False
  with assms have le: "mn \<le> 10" by simp
  have "MakeDay y (mn + 1) 0 =
      DayFromYear y + DaysBeforeMonth (if DaysInYear y = 365 then 0 else 1) (mn + 1) + 0 - 1"
    using assms(1) le by (intro MakeDay_in_year) simp_all
  then show ?thesis
    using assms by (simp add: MakeDay_in_year DaysBeforeMonth_next [OF assms(1) le])
qed

section \<open>Local time\<close>

text \<open>
  The instants which \<open>GetNamedTimeZoneEpoch\<close> lists are those whose local time is the
  local time given, in ascending order.
\<close>

lemma offsetFrom_in_offsets: "offsetFrom off trs u \<in> set (off # map snd trs)"
  by (induction off trs u rule: offsetFrom.induct) auto

lemma set_GetNamedTimeZoneEpoch:
  "set (GetNamedTimeZoneEpoch z t) = {u. LocalTime z u = t}"
proof -
  have "GetNamedTimeZoneOffset z u \<in> set (offsets z)" for u
    by (simp add: GetNamedTimeZoneOffset_def offsets_def offsetFrom_in_offsets del: set_simps)
  then have "u \<in> (\<lambda>off. u + GetNamedTimeZoneOffset z u - off) `
      {off \<in> set (offsets z). GetNamedTimeZoneOffset z (u + GetNamedTimeZoneOffset z u - off) = off}"
    for u
    by (intro image_eqI [of _ _ "GetNamedTimeZoneOffset z u"]) simp_all
  then show ?thesis
    by (auto simp: GetNamedTimeZoneEpoch_def LocalTime_def)
qed


lemma GetNamedTimeZoneEpoch_empty_iff:
  "GetNamedTimeZoneEpoch z t = [] \<longleftrightarrow> (\<forall>u. LocalTime z u \<noteq> t)"
  using set_GetNamedTimeZoneEpoch [of z t] by (auto simp del: set_empty simp: set_empty [symmetric])


lemma periodEnds_covered:
  assumes "sorted_wrt (<) (map fst trs)" and "\<forall>a \<in> set (map fst trs). L < a"
    and "e \<in> set (periodEnds off trs)"
  shows "\<exists>u \<ge> L. u + offsetFrom off trs u = e - 1"
  using assms
proof (induction off trs arbitrary: L rule: periodEnds.induct)
  case (1 off)
  then show ?case by simp
next
  case (2 off a off' rest)
  show ?case
  proof (cases "e = a + off")
    case True
    have "L \<le> a - 1" "a - 1 + offsetFrom off ((a, off') # rest) (a - 1) = e - 1"
      using "2.prems"(2) True by simp_all
    then show ?thesis by blast
  next
    case False
    then have "e \<in> set (periodEnds off' rest)"
      using "2.prems"(3) by simp
    moreover have "sorted_wrt (<) (map fst rest)" "\<forall>b \<in> set (map fst rest). a < b"
      using "2.prems"(1) by simp_all
    ultimately obtain u where u: "a \<le> u" "u + offsetFrom off' rest u = e - 1"
      using "2.IH" by blast
    then have "L \<le> u" "u + offsetFrom off ((a, off') # rest) u = e - 1"
      using "2.prems"(2) by simp_all
    then show ?thesis by blast
  qed
qed

lemma below_periodEnd:
  assumes "sorted_wrt (<) (map fst trs)" and "\<forall>a \<in> set (map fst trs). L < a"
    and "\<not> (\<exists>u \<ge> L. u + offsetFrom off trs u = t)"
    and "L \<le> u'" and "u' + offsetFrom off trs u' \<le> t"
  shows "\<exists>e \<in> set (periodEnds off trs). e \<le> t \<and> u' + offsetFrom off trs u' < e"
  using assms
proof (induction off trs arbitrary: L rule: periodEnds.induct)
  case (1 off)
  have "L \<le> t - off" "t - off + offsetFrom off [] (t - off) = t"
    using "1.prems"(4,5) by simp_all
  with "1.prems"(3) show ?case by blast
next
  case (2 off a off' rest)
  show ?case
  proof (cases "a \<le> u'")
    case False
    have "a + off \<le> t"
    proof (rule ccontr)
      assume "\<not> a + off \<le> t"
      then have "L \<le> t - off" "t - off + offsetFrom off ((a, off') # rest) (t - off) = t"
        using "2.prems"(4,5) False by simp_all
      with "2.prems"(3) show False by blast
    qed
    then show ?thesis
      using False by simp
  next
    case True
    have "sorted_wrt (<) (map fst rest)" "\<forall>b \<in> set (map fst rest). a < b"
      using "2.prems"(1) by simp_all
    moreover have "\<not> (\<exists>u \<ge> a. u + offsetFrom off' rest u = t)"
    proof
      assume "\<exists>u \<ge> a. u + offsetFrom off' rest u = t"
      then obtain u where "a \<le> u" "u + offsetFrom off' rest u = t"
        by blast
      then have "L \<le> u" "u + offsetFrom off ((a, off') # rest) u = t"
        using "2.prems"(2) by simp_all
      with "2.prems"(3) show False by blast
    qed
    moreover have "u' + offsetFrom off' rest u' \<le> t"
      using "2.prems"(5) True by simp
    ultimately have "\<exists>e \<in> set (periodEnds off' rest). e \<le> t \<and> u' + offsetFrom off' rest u' < e"
      using True by (intro "2.IH")
    then show ?thesis
      using True by auto
  qed
qed

lemma lower_bound_exists: "\<exists>L :: int. L \<le> u \<and> (\<forall>a \<in> set xs. L < a)"
proof (induction xs)
  case Nil
  then show ?case by auto
next
  case (Cons x xs)
  then obtain L where "L \<le> u" "\<forall>a \<in> set xs. L < a"
    by blast
  then have "min L (x - 1) \<le> u \<and> (\<forall>a \<in> set (x # xs). min L (x - 1) < a)"
    by auto
  then show ?case by blast
qed

text \<open>
  When the transitions of a zone are in ascending order and the local time \<open>t\<close> is
  skipped, \<open>tBefore z t\<close> is the largest local time below \<open>t\<close> that has an instant.
\<close>

lemma tBefore_largest:
  assumes asc: "sorted_wrt (<) (map fst (transitions z))"
    and skipped: "GetNamedTimeZoneEpoch z t = []"
  shows "tBefore z t < t"
    and "GetNamedTimeZoneEpoch z (tBefore z t) \<noteq> []"
    and "\<forall>t'. tBefore z t < t' \<and> t' < t \<longrightarrow> GetNamedTimeZoneEpoch z t' = []"
proof -
  let ?off = "initialOffset z" and ?trs = "transitions z"
  let ?E = "filter (\<lambda>e. e \<le> t) (periodEnds ?off ?trs)"
  have none: "\<not> (\<exists>u. u + offsetFrom ?off ?trs u = t)"
    using skipped by (simp add: GetNamedTimeZoneEpoch_empty_iff LocalTime_def
        GetNamedTimeZoneOffset_def)
  have below: "\<exists>e \<in> set ?E. u + offsetFrom ?off ?trs u < e"
    if "u + offsetFrom ?off ?trs u \<le> t" for u
  proof -
    obtain L where L: "L \<le> u" "\<forall>a \<in> set (map fst ?trs). L < a"
      using lower_bound_exists by blast
    have "\<not> (\<exists>u \<ge> L. u + offsetFrom ?off ?trs u = t)"
      using none by blast
    from below_periodEnd [OF asc L(2) this L(1) that] show ?thesis
      by auto
  qed
  obtain u0 where u0: "u0 + offsetFrom ?off ?trs u0 \<le> t"
  proof -
    obtain L where L: "L \<le> t - ?off" "\<forall>a \<in> set (map fst ?trs). L < a"
      using lower_bound_exists by blast
    have "L + offsetFrom ?off ?trs L = L + ?off"
      using L(2) by (cases ?trs) auto
    then have "L + offsetFrom ?off ?trs L \<le> t"
      using L(1) by simp
    then show ?thesis
      using that by blast
  qed
  from below [OF u0] obtain e0 where "e0 \<in> set ?E"
    by blast
  then have ne: "set ?E \<noteq> {}"
    by (metis empty_iff)
  then have M: "Max (set ?E) \<in> set ?E"
    by (intro Max_in) simp_all
  then have Mt: "Max (set ?E) \<le> t" and Me: "Max (set ?E) \<in> set (periodEnds ?off ?trs)"
    by simp_all
  show "tBefore z t < t"
    using Mt by (simp add: tBefore_def)
  show "GetNamedTimeZoneEpoch z (tBefore z t) \<noteq> []"
  proof -
    obtain L :: int where L: "\<forall>a \<in> set (map fst ?trs). L < a"
      using lower_bound_exists [of 0 "map fst ?trs"] by (auto simp del: set_map)
    from periodEnds_covered [OF asc L Me] obtain u where
      "u + offsetFrom ?off ?trs u = tBefore z t"
      by (auto simp: tBefore_def)
    then show ?thesis
      by (auto simp: GetNamedTimeZoneEpoch_empty_iff LocalTime_def GetNamedTimeZoneOffset_def)
  qed
  show "\<forall>t'. tBefore z t < t' \<and> t' < t \<longrightarrow> GetNamedTimeZoneEpoch z t' = []"
  proof (intro allI impI)
    fix t'
    assume t': "tBefore z t < t' \<and> t' < t"
    show "GetNamedTimeZoneEpoch z t' = []"
    proof (rule ccontr)
      assume "GetNamedTimeZoneEpoch z t' \<noteq> []"
      then obtain u where u: "u + offsetFrom ?off ?trs u = t'"
        by (auto simp: GetNamedTimeZoneEpoch_empty_iff LocalTime_def GetNamedTimeZoneOffset_def)
      with t' have "u + offsetFrom ?off ?trs u \<le> t"
        by simp
      from below [OF this] obtain e where e: "e \<in> set ?E" "t' < e"
        using u by auto
      have "e \<le> Max (set ?E)"
        using e(1) by (intro Max_ge) simp_all
      with e(2) have "t' < Max (set ?E)"
        by simp
      with t' show False
        by (simp add: tBefore_def)
    qed
  qed
qed


text \<open>A zone without transitions.\<close>

lemma GetNamedTimeZoneOffset_fixedZone: "GetNamedTimeZoneOffset (fixedZone tza) t = tza"
  by (simp add: GetNamedTimeZoneOffset_def fixedZone_def)

lemma LocalTime_fixedZone: "LocalTime (fixedZone tza) t = t + tza"
  by (simp add: LocalTime_def GetNamedTimeZoneOffset_fixedZone)

lemma GetNamedTimeZoneEpoch_fixedZone: "GetNamedTimeZoneEpoch (fixedZone tza) t = [t - tza]"
  by (simp add: GetNamedTimeZoneEpoch_def GetNamedTimeZoneOffset_fixedZone)
    (simp add: offsets_def fixedZone_def)

lemma UTC_fixedZone: "UTC (fixedZone tza) t = t - tza"
  by (simp add: UTC_def GetNamedTimeZoneEpoch_fixedZone GetNamedTimeZoneOffset_fixedZone)







section \<open>Dates at local midnight\<close>

lemma Day_of_midnight: "Day (d * msPerDay) = d"
  by (simp add: Day_def msPerDay_def)

lemma midnight_time: "HourFromTime (d * msPerDay) = 0" "MinFromTime (d * msPerDay) = 0"
proof -
  have "d * 86400000 = d * 24 * 3600000" "d * 86400000 = d * 1440 * 60000"
    by simp_all
  then have "d * 86400000 div 3600000 = d * 24" "d * 86400000 div 60000 = d * 1440"
    by (simp_all only: nonzero_mult_div_cancel_right)
  then show "HourFromTime (d * msPerDay) = 0" "MinFromTime (d * msPerDay) = 0"
    by (simp_all add: HourFromTime_def MinFromTime_def msPerDay_def msPerHour_def
        msPerMinute_def)
qed

lemma MakeTime_0: "MakeTime 0 0 0 0 = 0"
  by (simp add: MakeTime_def)

lemma newDate_Num:
  "newDate (fixedZone tza) (Num y) (Num m) (Num dt) =
     TimeClip (MakeDay (MakeFullYear y) m dt * msPerDay - tza)"
  by (simp add: UTC_fixedZone MakeDate_def MakeTime_0)


declare newDate.simps [simp del]

lemma LocalTime_midnight: "LocalTime (fixedZone tza) (d * msPerDay - tza) = d * msPerDay"
  by (simp add: LocalTime_fixedZone)

lemma TimeClip_cases:
  "TimeClip t = InvalidDate \<or> TimeClip t = Date t"
  by (simp add: TimeClip_def)

lemma days_loop_NaN:
  "getDate z lastDay = NaN \<Longrightarrow> days_loop z year month lastDay d days = days"
  by (subst days_loop.simps) simp

lemma days_loop_Num:
  "getDate z lastDay = Num n \<Longrightarrow>
     days_loop z year month lastDay d days =
       days @ map (\<lambda>k. newDate z year month (Num k)) [d..n]"
proof (induction z year month lastDay d days rule: days_loop.induct)
  case (1 z year month lastDay d days)
  show ?case
  proof (cases "d \<le> n")
    case True
    then have u: "[d..n] = d # [d + 1..n]"
      by (simp add: upto_rec1)
    show ?thesis
      using True "1.prems" "1.IH"
      by (subst days_loop.simps) (simp add: u)
  next
    case False
    then show ?thesis
      using "1.prems" by (subst days_loop.simps) simp
  qed
qed

section \<open>The day axis\<close>






lemma localMidnight_fields:
  assumes "0 \<le> m" "m \<le> 11" "1 \<le> k" "k \<le> DaysInMonth y m"
  shows "getFullYear (fixedZone tza) (Date (localMidnight tza y m k)) = Num y"
    and "getMonth (fixedZone tza) (Date (localMidnight tza y m k)) = Num m"
    and "getDate (fixedZone tza) (Date (localMidnight tza y m k)) = Num k"
proof -
  have d: "Day (LocalTime (fixedZone tza) (localMidnight tza y m k)) = MakeDay y m k"
    by (simp add: localMidnight_def LocalTime_midnight Day_of_midnight)
  show "getFullYear (fixedZone tza) (Date (localMidnight tza y m k)) = Num y"
    "getMonth (fixedZone tza) (Date (localMidnight tza y m k)) = Num m"
    "getDate (fixedZone tza) (Date (localMidnight tza y m k)) = Num k"
    using fields_of_MakeDay [OF assms d]
    by (simp_all add: getFullYear_def getMonth_def getDate_def)
qed


lemma lastDay_eq:
  assumes "0 \<le> m" "m \<le> 11"
  shows "newDate (fixedZone tza) (Num y) (Num (m + 1)) (Num 0) =
           TimeClip (localMidnight tza (MakeFullYear y) m (DaysInMonth (MakeFullYear y) m))"
  by (simp add: newDate_Num MakeDay_next_month_0 [OF assms] localMidnight_def)

lemma getDaysInMonth_Date:
  "getDaysInMonth (fixedZone tza) (Date t) =
     (let y = MakeFullYear (YearFromTime (LocalTime (fixedZone tza) t));
          m = MonthFromTime (LocalTime (fixedZone tza) t)
      in if TimeClip (localMidnight tza y m (DaysInMonth y m)) = InvalidDate then []
         else map (\<lambda>k. TimeClip (localMidnight tza y m k)) [1..DaysInMonth y m])"
proof -
  define y0 where "y0 = YearFromTime (LocalTime (fixedZone tza) t)"
  define y where "y = MakeFullYear y0"
  define m where "m = MonthFromTime (LocalTime (fixedZone tza) t)"
  define n where "n = DaysInMonth y m"
  have mb: "0 \<le> m" "m \<le> 11"
    by (simp_all add: m_def MonthFromTime_bounds)
  have last: "newDate (fixedZone tza) (Num y0) (Num (m + 1)) (Num 0) = TimeClip (localMidnight tza y m n)"
    by (simp add: lastDay_eq [OF mb] y_def n_def)
  have nd: "newDate (fixedZone tza) (Num y0) (Num m) (Num k) = TimeClip (localMidnight tza y m k)" for k
    by (simp add: newDate_Num localMidnight_def y_def)
  have g: "getDaysInMonth (fixedZone tza) (Date t) =
      days_loop (fixedZone tza) (Num y0) (Num m) (TimeClip (localMidnight tza y m n)) 1 []"
    unfolding getDaysInMonth_def Let_def getFullYear_def getMonth_def
    by (simp add: y0_def [symmetric] m_def [symmetric] last)
  have goal: "getDaysInMonth (fixedZone tza) (Date t) =
      (if TimeClip (localMidnight tza y m n) = InvalidDate then []
       else map (\<lambda>k. TimeClip (localMidnight tza y m k)) [1..n])"
  proof (cases "TimeClip (localMidnight tza y m n) = InvalidDate")
    case True
    then show ?thesis
      by (simp add: g getDate_def days_loop_NaN)
  next
    case False
    then have v: "TimeClip (localMidnight tza y m n) = Date (localMidnight tza y m n)"
      using TimeClip_cases by blast
    have "getDate (fixedZone tza) (Date (localMidnight tza y m n)) = Num n"
      using mb DaysInMonth_bounds [of y m] by (intro localMidnight_fields) (simp_all add: n_def)
    then show ?thesis
      by (simp add: g v days_loop_Num nd)
  qed
  then show ?thesis
    by (simp add: Let_def y0_def y_def m_def n_def)
qed

lemma localMidnight_mono: "j \<le> k \<Longrightarrow> localMidnight tza y m j \<le> localMidnight tza y m k"
  by (simp add: localMidnight_def MakeDay_def msPerDay_def Let_def)

lemma TimeClip_between:
  assumes "\<bar>localMidnight tza y m 1\<bar> \<le> 8640000000000000"
    and "\<bar>localMidnight tza y m n\<bar> \<le> 8640000000000000"
    and "1 \<le> k" "k \<le> n"
  shows "TimeClip (localMidnight tza y m k) = Date (localMidnight tza y m k)"
  using assms(1,2) localMidnight_mono [OF assms(3), of tza y m]
    localMidnight_mono [OF assms(4), of tza y m]
  by (simp add: TimeClip_def)

lemma getDaysInMonth_regular:
  assumes y: "YearFromTime (LocalTime (fixedZone tza) t) = y" and m: "MonthFromTime (LocalTime (fixedZone tza) t) = m"
    and yr: "y < 0 \<or> 99 < y"
    and first: "\<bar>localMidnight tza y m 1\<bar> \<le> 8640000000000000"
    and last: "\<bar>localMidnight tza y m (DaysInMonth y m)\<bar> \<le> 8640000000000000"
  shows "getDaysInMonth (fixedZone tza) (Date t) =
           map (\<lambda>k. Date (localMidnight tza y m k)) [1..DaysInMonth y m]"
    and "getDate (fixedZone tza) (newDate (fixedZone tza) (Num y) (Num (m + 1)) (Num 0)) = Num (DaysInMonth y m)"
proof -
  let ?n = "DaysInMonth y m"
  have mb: "0 \<le> m" "m \<le> 11"
    using MonthFromTime_bounds [of "LocalTime (fixedZone tza) t"] by (simp_all add: m)
  have n: "28 \<le> ?n" by (rule DaysInMonth_bounds)
  have full: "MakeFullYear y = y"
    using yr by (auto simp: MakeFullYear_def)
  have clip: "TimeClip (localMidnight tza y m k) = Date (localMidnight tza y m k)"
    if "1 \<le> k" "k \<le> ?n" for k
    using first last that by (rule TimeClip_between)
  show "getDaysInMonth (fixedZone tza) (Date t) = map (\<lambda>k. Date (localMidnight tza y m k)) [1..?n]"
    using n by (simp add: getDaysInMonth_Date y m full Let_def clip)
  show "getDate (fixedZone tza) (newDate (fixedZone tza) (Num y) (Num (m + 1)) (Num 0)) = Num ?n"
    using n localMidnight_fields(3) [OF mb, of ?n y tza]
    by (simp add: lastDay_eq [OF mb] full clip)
qed


lemma fields_at:
  assumes "Day t = MakeDay y mn dt" "0 \<le> mn" "mn \<le> 11" "1 \<le> dt" "dt \<le> DaysInMonth y mn"
  shows "YearFromTime t = y \<and> MonthFromTime t = mn \<and> DateFromTime t = dt"
  using fields_of_MakeDay [OF assms(2-5) assms(1)] by simp

lemmas calendar_eval = LocalTime_fixedZone Day_def msPerDay_def MakeDay_def DayFromYear_def
  DaysInYear_def DaysBeforeMonth_def DaysInMonth_def localMidnight_def

lemma march_2024: "YearFromTime (LocalTime (fixedZone 32400000) 1709596200000) = 2024
  \<and> MonthFromTime (LocalTime (fixedZone 32400000) 1709596200000) = 2
  \<and> DateFromTime (LocalTime (fixedZone 32400000) 1709596200000) = 5"
  by (rule fields_at) (simp_all add: calendar_eval)





section \<open>The day axis in a zone that skips a day, and at the ends of the range\<close>

















section \<open>Writing and reading the ISO 8601 text\<close>

text \<open>
  Reading the text \<^verbatim>\<open>toISOString\<close> writes for a time value gives the time value back.
\<close>

lemma digit_value_digit: "0 \<le> n \<Longrightarrow> n \<le> 9 \<Longrightarrow> digit_value (digit n) = Some n"
  by (simp add: digit_value_def digit_def Let_def)

lemma digit_not_sign: "0 \<le> n \<Longrightarrow> n \<le> 9 \<Longrightarrow> digit n \<noteq> CHR ''+'' \<and> digit n \<noteq> CHR ''-''"
proof -
  assume "0 \<le> n" "n \<le> 9"
  then have "digit_value (digit n) = Some n" by (rule digit_value_digit)
  moreover have "digit_value CHR ''+'' = None" "digit_value CHR ''-'' = None"
    by (simp_all add: digit_value_def)
  ultimately show ?thesis by auto
qed

lemma length_digits: "length (digits k n) = k"
  by (induction k arbitrary: n) simp_all

lemma decimal_from_append:
  "decimal_from acc (xs @ ys) =
     (case decimal_from acc xs of None \<Rightarrow> None | Some a \<Rightarrow> decimal_from a ys)"
  by (induction xs arbitrary: acc) (simp_all split: option.splits)

lemma decimal_from_digits:
  "0 \<le> n \<Longrightarrow> n < 10 ^ k \<Longrightarrow> decimal_from acc (digits k n) = Some (acc * 10 ^ k + n)"
proof (induction k arbitrary: n)
  case 0
  then show ?case by simp
next
  case (Suc k)
  have q: "0 \<le> n div 10" "n div 10 < 10 ^ k"
    using Suc.prems by (simp_all add: div_less_iff_less_mult)
  have r: "0 \<le> n mod 10" "n mod 10 \<le> 9"
    by simp_all
  have "10 * (n div 10) + n mod 10 = n" by simp
  then show ?case
    using Suc.IH [OF q] digit_value_digit [OF r]
    by (simp add: decimal_from_append algebra_simps)
qed

lemma decimal_digits: "0 \<le> n \<Longrightarrow> n < 10 ^ k \<Longrightarrow> decimal (digits k n) = Some n"
  by (simp add: decimal_def decimal_from_digits)


lemma time_fields:
  "MakeDate (Day t) (MakeTime (HourFromTime t) (MinFromTime t) (SecFromTime t) (msFromTime t)) = t"
proof -
  define a where "a = t div 1000"
  define b where "b = a div 60"
  define c where "c = b div 60"
  define d where "d = c div 24"
  have e: "t div 60000 = b" "t div 3600000 = c" "t div 86400000 = d"
    using zdiv_zmult2_eq [of 60 t 1000] zdiv_zmult2_eq [of 60 t 60000]
      zdiv_zmult2_eq [of 24 t 3600000]
    by (simp_all add: a_def b_def c_def d_def)
  have 1: "t = 1000 * a + t mod 1000" by (simp add: a_def)
  have 2: "a = 60 * b + a mod 60" by (simp add: b_def)
  have 3: "b = 60 * c + b mod 60" by (simp add: c_def)
  have 4: "c = 24 * d + c mod 24" by (simp add: d_def)
  have "d * 86400000 + (c mod 24 * 3600000 + b mod 60 * 60000 + a mod 60 * 1000 + t mod 1000) = t"
    using 1 2 3 4 by linarith
  then show ?thesis
    by (simp add: MakeDate_def MakeTime_def Day_def HourFromTime_def MinFromTime_def
        SecFromTime_def msFromTime_def msPerDay_def msPerHour_def msPerMinute_def
        msPerSecond_def e a_def [symmetric])
qed

lemma time_field_bounds:
  "0 \<le> HourFromTime t" "HourFromTime t \<le> 23" "0 \<le> MinFromTime t" "MinFromTime t \<le> 59"
  "0 \<le> SecFromTime t" "SecFromTime t \<le> 59" "0 \<le> msFromTime t" "msFromTime t \<le> 999"
  by (simp_all add: HourFromTime_def MinFromTime_def SecFromTime_def msFromTime_def
      msPerSecond_def)

lemma YearFromTime_range:
  assumes "\<bar>t\<bar> \<le> 8640000000000000"
  shows "- 271821 \<le> YearFromTime t" "YearFromTime t \<le> 275760"
proof -
  have "(- 8640000000000000) div 86400000 \<le> t div 86400000"
    using assms by (intro zdiv_mono1) simp_all
  moreover have "t div 86400000 \<le> 8640000000000000 div 86400000"
    using assms by (intro zdiv_mono1) simp_all
  ultimately have d: "- 100000000 \<le> Day t" "Day t \<le> 100000000"
    by (simp_all add: Day_def msPerDay_def)
  show "YearFromTime t \<le> 275760"
  proof (rule ccontr)
    assume "\<not> YearFromTime t \<le> 275760"
    then have "DayFromYear 275761 \<le> DayFromYear (YearFromTime t)"
      by (intro DayFromYear_mono) simp
    with YearFromTime_bounds(1) [of t] d(2) show False
      by (simp add: DayFromYear_def)
  qed
  show "- 271821 \<le> YearFromTime t"
  proof (rule ccontr)
    assume "\<not> - 271821 \<le> YearFromTime t"
    then have "DayFromYear (YearFromTime t + 1) \<le> DayFromYear (- 271821)"
      by (intro DayFromYear_mono) simp
    with YearFromTime_bounds(2) [of t] d(1) show False
      by (simp add: DayFromYear_def)
  qed
qed

lemma hd_digits: "0 < k \<Longrightarrow> \<exists>d. 0 \<le> d \<and> d \<le> 9 \<and> hd (digits k n) = digit d"
proof (induction k arbitrary: n)
  case 0
  then show ?case by simp
next
  case (Suc k)
  show ?case
  proof (cases "k = 0")
    case True
    have "0 \<le> n mod 10 \<and> n mod 10 \<le> 9 \<and> hd (digits (Suc 0) n) = digit (n mod 10)"
      by simp
    with True show ?thesis by blast
  next
    case False
    then have "digits k (n div 10) \<noteq> []"
      using length_digits [of k "n div 10"] by auto
    then have "hd (digits (Suc k) n) = hd (digits k (n div 10))"
      by simp
    with Suc.IH [of "n div 10"] False show ?thesis by simp
  qed
qed

lemma parse_year_unsigned:
  "ys \<noteq> [] \<Longrightarrow> hd ys \<noteq> CHR ''+'' \<Longrightarrow> hd ys \<noteq> CHR ''-'' \<Longrightarrow> parse_year ys = decimal ys"
  by (cases ys) (simp_all add: parse_year_def)

lemma year_text_cases:
  "(0 \<le> y \<and> y \<le> 9999 \<and> year_text y = digits 4 y)
   \<or> (y < 0 \<and> year_text y = CHR ''-'' # digits 6 (- y))
   \<or> (9999 < y \<and> year_text y = CHR ''+'' # digits 6 y)"
  by (auto simp: year_text_def)

lemma digits_4_unsigned:
  "digits 4 y \<noteq> [] \<and> hd (digits 4 y) \<noteq> CHR ''+'' \<and> hd (digits 4 y) \<noteq> CHR ''-''"
proof -
  obtain d where "0 \<le> d" "d \<le> 9" "hd (digits 4 y) = digit d"
    using hd_digits [of 4 y] by auto
  moreover have "digits 4 y \<noteq> []"
    using length_digits [of 4 y] by auto
  ultimately show ?thesis
    using digit_not_sign by auto
qed

lemma parse_year_text:
  assumes "- 999999 \<le> y" "y \<le> 999999"
  shows "parse_year (year_text y) = Some y"
  using year_text_cases [of y]
proof (elim disjE conjE)
  assume "0 \<le> y" "y \<le> 9999" "year_text y = digits 4 y"
  then show ?thesis
    using digits_4_unsigned [of y] by (simp add: parse_year_unsigned decimal_digits)
next
  assume "y < 0" "year_text y = CHR ''-'' # digits 6 (- y)"
  then show ?thesis
    using assms by (simp add: parse_year_def decimal_digits)
next
  assume "9999 < y" "year_text y = CHR ''+'' # digits 6 y"
  then show ?thesis
    using assms by (simp add: parse_year_def decimal_digits)
qed

lemma year_text_length:
  "length (year_text y) =
     (case year_text y of
        [] \<Rightarrow> 4
      | c # _ \<Rightarrow> if c = CHR ''+'' \<or> c = CHR ''-'' then 7 else (4::nat))"
  using year_text_cases [of y]
proof (elim disjE conjE)
  assume "year_text y = digits 4 y"
  then show ?thesis
    using digits_4_unsigned [of y] length_digits [of 4 y]
    by (cases "digits 4 y") auto
qed (simp_all add: length_digits)

lemma layout:
  assumes "length m = 2" "length d = 2" "length h = 2" "length mi = 2" "length sc = 2"
    and "length ms = 3"
    and "r = ''-'' @ m @ ''-'' @ d @ ''T'' @ h @ '':'' @ mi @ '':'' @ sc @ ''.'' @ ms @ ''Z''"
  shows "length r = 20" "r ! 0 = CHR ''-''" "r ! 3 = CHR ''-''" "r ! 6 = CHR ''T''"
    "r ! 9 = CHR '':''" "r ! 12 = CHR '':''" "r ! 15 = CHR ''.''" "r ! 19 = CHR ''Z''"
    "take 2 (drop 1 r) = m" "take 2 (drop 4 r) = d" "take 2 (drop 7 r) = h"
    "take 2 (drop 10 r) = mi" "take 2 (drop 13 r) = sc" "take 3 (drop 16 r) = ms"
proof -
  obtain m1 m2 where m: "m = [m1, m2]"
    using assms(1) by (auto simp: length_Suc_conv numeral_2_eq_2)
  obtain d1 d2 where d: "d = [d1, d2]"
    using assms(2) by (auto simp: length_Suc_conv numeral_2_eq_2)
  obtain h1 h2 where h: "h = [h1, h2]"
    using assms(3) by (auto simp: length_Suc_conv numeral_2_eq_2)
  obtain i1 i2 where mi: "mi = [i1, i2]"
    using assms(4) by (auto simp: length_Suc_conv numeral_2_eq_2)
  obtain s1 s2 where sc: "sc = [s1, s2]"
    using assms(5) by (auto simp: length_Suc_conv numeral_2_eq_2)
  obtain l1 l2 l3 where ms: "ms = [l1, l2, l3]"
    using assms(6) by (auto simp: length_Suc_conv numeral_3_eq_3)
  show "length r = 20" "r ! 0 = CHR ''-''" "r ! 3 = CHR ''-''" "r ! 6 = CHR ''T''"
    "r ! 9 = CHR '':''" "r ! 12 = CHR '':''" "r ! 15 = CHR ''.''" "r ! 19 = CHR ''Z''"
    "take 2 (drop 1 r) = m" "take 2 (drop 4 r) = d" "take 2 (drop 7 r) = h"
    "take 2 (drop 10 r) = mi" "take 2 (drop 13 r) = sc" "take 3 (drop 16 r) = ms"
    by (simp_all add: assms(7) m d h mi sc ms)
qed

lemma Date_parse_year_text:
  assumes "length r = 20" "r ! 0 = CHR ''-''" "r ! 3 = CHR ''-''" "r ! 6 = CHR ''T''"
    "r ! 9 = CHR '':''" "r ! 12 = CHR '':''" "r ! 15 = CHR ''.''" "r ! 19 = CHR ''Z''"
  shows "Date_parse (year_text y @ r) = parse_fields (year_text y) r"
proof -
  have ne: "year_text y \<noteq> []"
    using year_text_cases [of y] length_digits [of 4 y] by auto
  then obtain c cs where c: "year_text y = c # cs"
    by (cases "year_text y") auto
  have "(case year_text y @ r of
          [] \<Rightarrow> 4
        | c # _ \<Rightarrow> if c = CHR ''+'' \<or> c = CHR ''-'' then 7 else (4::nat)) =
        length (year_text y)"
    by (subst year_text_length) (simp add: c)
  then show ?thesis
    using assms by (simp add: Date_parse_def Let_def)
qed

lemma Date_parse_iso_text:
  assumes "\<bar>t\<bar> \<le> 8640000000000000"
  shows "Date_parse (iso_text t) = Date t"
proof -
  define r where "r = ''-'' @ digits 2 (MonthFromTime t + 1) @ ''-''
       @ digits 2 (DateFromTime t) @ ''T'' @ digits 2 (HourFromTime t) @ '':''
       @ digits 2 (MinFromTime t) @ '':'' @ digits 2 (SecFromTime t) @ ''.''
       @ digits 3 (msFromTime t) @ ''Z''"
  note l = layout [OF length_digits length_digits length_digits length_digits length_digits
      length_digits r_def]
  have s: "iso_text t = year_text (YearFromTime t) @ r"
    by (simp add: iso_text_def r_def)
  have y: "parse_year (year_text (YearFromTime t)) = Some (YearFromTime t)"
    using YearFromTime_range [OF assms] by (intro parse_year_text) simp_all
  have mo: "decimal (digits 2 (MonthFromTime t + 1)) = Some (MonthFromTime t + 1)"
    using MonthFromTime_bounds [of t] by (intro decimal_digits) simp_all
  have d: "decimal (digits 2 (DateFromTime t)) = Some (DateFromTime t)"
    using DateFromTime_bounds [of t] DaysInMonth_bounds(2) [of "YearFromTime t" "MonthFromTime t"]
    by (intro decimal_digits) simp_all
  have h: "decimal (digits 2 (HourFromTime t)) = Some (HourFromTime t)"
    using time_field_bounds [of t] by (intro decimal_digits) simp_all
  have mi: "decimal (digits 2 (MinFromTime t)) = Some (MinFromTime t)"
    using time_field_bounds [of t] by (intro decimal_digits) simp_all
  have sc: "decimal (digits 2 (SecFromTime t)) = Some (SecFromTime t)"
    using time_field_bounds [of t] by (intro decimal_digits) simp_all
  have ms: "decimal (digits 3 (msFromTime t)) = Some (msFromTime t)"
    using time_field_bounds [of t] by (intro decimal_digits) simp_all
  have "parse_fields (year_text (YearFromTime t)) r =
      TimeClip (MakeDate (MakeDay (YearFromTime t) (MonthFromTime t) (DateFromTime t))
        (MakeTime (HourFromTime t) (MinFromTime t) (SecFromTime t) (msFromTime t)))"
    using MonthFromTime_bounds [of t] DateFromTime_bounds [of t] time_field_bounds [of t]
    unfolding parse_fields_def l y mo d h mi sc ms option.case
    by simp
  also have "\<dots> = TimeClip t"
    by (simp add: MakeDay_fields time_fields)
  also have "\<dots> = Date t"
    using assms by (simp add: TimeClip_def)
  finally show ?thesis
    by (simp add: s Date_parse_year_text [OF l(1-8)])
qed

lemma digit_chars:
  "digit 0 = CHR ''0''" "digit 1 = CHR ''1''" "digit 2 = CHR ''2''" "digit 3 = CHR ''3''"
  "digit 4 = CHR ''4''" "digit 5 = CHR ''5''" "digit 6 = CHR ''6''" "digit 7 = CHR ''7''"
  "digit 8 = CHR ''8''" "digit 9 = CHR ''9''"
  by (simp_all add: digit_def char_of_def)

lemma digits_2: "digits 2 n = [digit (n div 10 mod 10), digit (n mod 10)]"
  by (simp add: numeral_2_eq_2)

lemma digits_3: "digits 3 n = [digit (n div 100 mod 10), digit (n div 10 mod 10), digit (n mod 10)]"
  using zdiv_zmult2_eq [of 10 n 10] by (simp add: numeral_3_eq_3)

lemma digits_4: "digits 4 n =
  [digit (n div 1000 mod 10), digit (n div 100 mod 10), digit (n div 10 mod 10), digit (n mod 10)]"
  using zdiv_zmult2_eq [of 10 n 10] zdiv_zmult2_eq [of 10 n 100]
  by (simp add: eval_nat_numeral)

lemmas text_eval = iso_text_def year_text_def digits_2 digits_3 digits_4 digit_chars
  HourFromTime_def MinFromTime_def SecFromTime_def msFromTime_def
  msPerHour_def msPerMinute_def msPerSecond_def

lemma iso_1709596200000: "iso_text 1709596200000 = ''2024-03-04T23:50:00.000Z''"
proof -
  have "YearFromTime 1709596200000 = 2024 \<and> MonthFromTime 1709596200000 = 2
      \<and> DateFromTime 1709596200000 = 4"
    by (rule fields_at) (simp_all add: calendar_eval)
  then show ?thesis
    by (simp add: text_eval)
qed

lemma iso_1709601600000: "iso_text 1709601600000 = ''2024-03-05T01:20:00.000Z''"
proof -
  have "YearFromTime 1709601600000 = 2024 \<and> MonthFromTime 1709601600000 = 2
      \<and> DateFromTime 1709601600000 = 5"
    by (rule fields_at) (simp_all add: calendar_eval)
  then show ?thesis
    by (simp add: text_eval)
qed

lemma format_meeting: "formatEvent calendar1 example_meeting = Inr example_meeting_event"
  by (simp add: formatEvent_def example_meeting_def example_meeting_event_def
      iso_1709596200000 iso_1709601600000)

section \<open>The feed aggregator\<close>

lemma map_throwing_Inr:
  "(\<And>x. x \<in> set xs \<Longrightarrow> \<exists>y. f x = Inr y) \<Longrightarrow>
     \<exists>ys. map_throwing f xs = Inr ys \<and> list_all2 (\<lambda>x y. f x = Inr y) xs ys"
proof (induction xs)
  case Nil
  show ?case by simp
next
  case (Cons x xs)
  from Cons.prems obtain y where y: "f x = Inr y" by auto
  from Cons obtain ys where
    ys: "map_throwing f xs = Inr ys" "list_all2 (\<lambda>x y. f x = Inr y) xs ys"
    by auto
  show ?case using y ys by simp
qed

lemma formatEvent_valid:
  "ical_start event = Date s \<Longrightarrow> ical_end event = Date e \<Longrightarrow>
     formatEvent source event =
       Inr \<lparr> ev_id = ical_uid event,
             ev_subject = ical_summary event,
             ev_start = \<lparr> dateTime = iso_text s, timeZone = ''Asia/Tokyo'' \<rparr>,
             ev_end = \<lparr> dateTime = iso_text e, timeZone = ''Asia/Tokyo'' \<rparr>,
             ev_location =
               (case ical_location event of
                  None \<Rightarrow> None
                | Some l \<Rightarrow> if l = [] then None else Some \<lparr> displayName = l \<rparr>),
             ev_description = ical_description event,
             ev_source = source \<rparr>"
  by (simp add: formatEvent_def)

lemma formatEvent_source: "formatEvent source event = Inr ev \<Longrightarrow> ev_source ev = source"
  by (auto simp: formatEvent_def split: sum.splits)

lemma formatted_source:
  "list_all2 (\<lambda>raw ev. formatEvent source raw = Inr ev) raws evs \<Longrightarrow>
     \<forall>ev \<in> set evs. ev_source ev = source"
  by (induction rule: list_all2_induct) (auto dest: formatEvent_source)

lemma formatEvents_Inr:
  assumes "\<forall>e \<in> set feed. ical_type e = ''VEVENT'' \<longrightarrow>
             ical_start e \<noteq> InvalidDate \<and> ical_end e \<noteq> InvalidDate"
  shows "\<exists>evs. formatEvents feed source = Inr evs
           \<and> list_all2 (\<lambda>raw ev. formatEvent source raw = Inr ev)
                (filter (\<lambda>event. ical_type event = ''VEVENT'') feed) evs"
  unfolding formatEvents_def
proof (rule map_throwing_Inr)
  fix x assume "x \<in> set (filter (\<lambda>event. ical_type event = ''VEVENT'') feed)"
  with assms have "ical_start x \<noteq> InvalidDate" "ical_end x \<noteq> InvalidDate"
    by auto
  then obtain s e where "ical_start x = Date s" "ical_end x = Date e"
    by (cases "ical_start x"; cases "ical_end x") auto
  then show "\<exists>y. formatEvent source x = Inr y"
    by (simp add: formatEvent_valid)
qed

text \<open>
  A timed entry with an invalid start or end makes \<^verbatim>\<open>toISOString\<close> throw, and the handler
  answers as for a failed fetch.
\<close>

lemma formatEvent_throws:
  "ical_start event = InvalidDate \<or> ical_end event = InvalidDate \<Longrightarrow>
     formatEvent source event = Inl RangeError_invalid_time"
  by (cases "ical_start event") (auto simp: formatEvent_def)

lemma map_throwing_Inl:
  "x \<in> set xs \<Longrightarrow> f x = Inl e \<Longrightarrow> \<exists>e'. map_throwing f xs = Inl e'"
  by (induction xs) (auto split: sum.splits)

lemma handler_format_failure:
  assumes "url1 \<noteq> []" and "url2 \<noteq> []"
    and "event \<in> set (feedA @ feedB)" and "ical_type event = ''VEVENT''"
    and "ical_start event = InvalidDate \<or> ical_end event = InvalidDate"
  shows "\<exists>details. handler (Some url1) (Some url2) (Inr feedA) (Inr feedB) second_first =
      (\<lparr> status = 500, json = ErrorBody MSG_FETCH_FAILED (Some details) \<rparr>, [url1, url2])"
proof -
  have "(\<exists>e. formatEvents feedA calendar1 = Inl e) \<or> (\<exists>e. formatEvents feedB calendar2 = Inl e)"
    using assms(3-5) formatEvent_throws [of event]
    by (auto simp: formatEvents_def intro!: map_throwing_Inl [of event])
  then show ?thesis
    using assms(1,2)
    by (auto simp: handler_def catch_response_def split: sum.splits)
qed

text \<open>
  C4. When either feed locator is unset or empty, the handler answers with status 400 and
  the message for a missing configuration, which is not the message of a failed fetch;
  the list of fetches it has started is empty, whatever the feeds would have returned.
\<close>

theorem missing_locator_fails_before_fetch:
  assumes "calendar1Url = None \<or> calendar1Url = Some []
             \<or> calendar2Url = None \<or> calendar2Url = Some []"
  shows "handler calendar1Url calendar2Url fetched1 fetched2 second_first =
           (\<lparr> status = 400, json = ErrorBody MSG_URL_NOT_SET None \<rparr>, [])
         \<and> MSG_URL_NOT_SET \<noteq> MSG_FETCH_FAILED"
proof -
  have "MSG_URL_NOT_SET \<noteq> MSG_FETCH_FAILED"
    by (simp add: MSG_URL_NOT_SET_def MSG_FETCH_FAILED_def)
  with assms show ?thesis
    by (cases calendar1Url; cases calendar2Url) (auto simp: handler_def)
qed

theorem missing_locator_fails_before_fetch_witness:
  "handler None (Some ''https://example.org/b.ics'') (Inr []) (Inr []) False =
     (\<lparr> status = 400, json = ErrorBody MSG_URL_NOT_SET None \<rparr>, [])
   \<and> MSG_URL_NOT_SET \<noteq> MSG_FETCH_FAILED"
  by (rule missing_locator_fails_before_fetch) simp

text \<open>
  C3. With two non-empty feed locators and two fetched feeds in which every
  \<^verbatim>\<open>VEVENT\<close> entry has a valid start and a valid end, the handler answers with
  status 200 and the events of feed A's \<^verbatim>\<open>VEVENT\<close> entries, in their order, followed by
  those of feed B's: each event is what \<open>formatEvent\<close> makes of its entry, the first
  group is tagged \<open>calendar1\<close> and the second \<open>calendar2\<close>, the number of events is
  the number of \<^verbatim>\<open>VEVENT\<close> entries of both feeds, and entries of other types are left
  out. Nothing is sorted and nothing is removed.
\<close>

theorem aggregate_concatenates:
  assumes "url1 \<noteq> []" and "url2 \<noteq> []"
    and "\<forall>e \<in> set feedA. ical_type e = ''VEVENT'' \<longrightarrow>
           ical_start e \<noteq> InvalidDate \<and> ical_end e \<noteq> InvalidDate"
    and "\<forall>e \<in> set feedB. ical_type e = ''VEVENT'' \<longrightarrow>
           ical_start e \<noteq> InvalidDate \<and> ical_end e \<noteq> InvalidDate"
  shows "\<exists>evs1 evs2.
           handler (Some url1) (Some url2) (Inr feedA) (Inr feedB) second_first =
             (\<lparr> status = 200, json = ValueBody (evs1 @ evs2) \<rparr>, [url1, url2])
           \<and> list_all2 (\<lambda>raw ev. formatEvent calendar1 raw = Inr ev)
                (filter (\<lambda>event. ical_type event = ''VEVENT'') feedA) evs1
           \<and> list_all2 (\<lambda>raw ev. formatEvent calendar2 raw = Inr ev)
                (filter (\<lambda>event. ical_type event = ''VEVENT'') feedB) evs2
           \<and> length (evs1 @ evs2) =
                length (filter (\<lambda>event. ical_type event = ''VEVENT'') feedA)
                + length (filter (\<lambda>event. ical_type event = ''VEVENT'') feedB)
           \<and> (\<forall>ev \<in> set evs1. ev_source ev = calendar1)
           \<and> (\<forall>ev \<in> set evs2. ev_source ev = calendar2)"
proof -
  from formatEvents_Inr [OF assms(3), of calendar1] obtain evs1 where
    1: "formatEvents feedA calendar1 = Inr evs1"
       "list_all2 (\<lambda>raw ev. formatEvent calendar1 raw = Inr ev)
          (filter (\<lambda>event. ical_type event = ''VEVENT'') feedA) evs1"
    by blast
  from formatEvents_Inr [OF assms(4), of calendar2] obtain evs2 where
    2: "formatEvents feedB calendar2 = Inr evs2"
       "list_all2 (\<lambda>raw ev. formatEvent calendar2 raw = Inr ev)
          (filter (\<lambda>event. ical_type event = ''VEVENT'') feedB) evs2"
    by blast
  have h: "handler (Some url1) (Some url2) (Inr feedA) (Inr feedB) second_first =
             (\<lparr> status = 200, json = ValueBody (evs1 @ evs2) \<rparr>, [url1, url2])"
    using assms(1,2) 1(1) 2(1) by (simp add: handler_def)
  have l: "length evs1 = length (filter (\<lambda>event. ical_type event = ''VEVENT'') feedA)"
      "length evs2 = length (filter (\<lambda>event. ical_type event = ''VEVENT'') feedB)"
    using 1(2) 2(2) by (simp_all add: list_all2_lengthD)
  have s1: "\<forall>ev \<in> set evs1. ev_source ev = calendar1"
    using 1(2) by (rule formatted_source)
  have s2: "\<forall>ev \<in> set evs2. ev_source ev = calendar2"
    using 2(2) by (rule formatted_source)
  show ?thesis
    using h 1(2) 2(2) l s1 s2 by (intro exI [of _ evs1] exI [of _ evs2]) simp
qed

text \<open>
  The theorem at a feed A of a timezone entry and one event, which starts after the one
  event of feed B.
\<close>

theorem aggregate_concatenates_witness:
  "\<exists>evs1 evs2.
     handler (Some ''https://example.org/a.ics'') (Some ''https://example.org/b.ics'')
       (Inr example_feedA) (Inr example_feedB) False =
       (\<lparr> status = 200, json = ValueBody (evs1 @ evs2) \<rparr>,
        [''https://example.org/a.ics'', ''https://example.org/b.ics''])
     \<and> list_all2 (\<lambda>raw ev. formatEvent calendar1 raw = Inr ev)
          (filter (\<lambda>event. ical_type event = ''VEVENT'') example_feedA) evs1
     \<and> list_all2 (\<lambda>raw ev. formatEvent calendar2 raw = Inr ev)
          (filter (\<lambda>event. ical_type event = ''VEVENT'') example_feedB) evs2
     \<and> length (evs1 @ evs2) =
          length (filter (\<lambda>event. ical_type event = ''VEVENT'') example_feedA)
          + length (filter (\<lambda>event. ical_type event = ''VEVENT'') example_feedB)
     \<and> (\<forall>ev \<in> set evs1. ev_source ev = calendar1)
     \<and> (\<forall>ev \<in> set evs2. ev_source ev = calendar2)"
  by (rule aggregate_concatenates) (simp_all add: example_feedA_def example_feedB_def example_meeting_def)

text \<open>
  C5, as the code has it. With two non-empty feed locators, when either fetch (with its
  parse) is rejected, the handler answers with status 500 and the message of a failed
  fetch, for one of the rejections; \<^verbatim>\<open>details\<close> is the message of that rejection's
  reason when the reason is an \<^verbatim>\<open>Error\<close> object and the fixed text for an unknown error
  otherwise. The response holds no event of the other feed, and the component, given
  this response, sets its error and no event.
\<close>

theorem fetch_failure_all_or_nothing:
  assumes "url1 \<noteq> []" and "url2 \<noteq> []" and "isl fetched1 \<or> isl fetched2"
  shows "\<exists>cause.
           (fetched1 = Inl cause \<or> fetched2 = Inl cause)
           \<and> handler (Some url1) (Some url2) fetched1 fetched2 second_first =
               (\<lparr> status = 500,
                  json = ErrorBody MSG_FETCH_FAILED
                           (Some (case cause of
                                    Error message \<Rightarrow> message
                                  | NotAnError _ \<Rightarrow> MSG_UNKNOWN_ERROR)) \<rparr>,
                [url1, url2])
           \<and> fetchEvents (fst (handler (Some url1) (Some url2) fetched1 fetched2 second_first))
               = Inl MSG_FETCH_FAILED"
proof -
  have ne: "MSG_FETCH_FAILED \<noteq> []"
    by (simp add: MSG_FETCH_FAILED_def)
  from assms(3) obtain cause where
    c: "fetched1 = Inl cause \<or> fetched2 = Inl cause"
       "Promise_all second_first fetched1 fetched2 = Inl cause"
    by (cases fetched1; cases fetched2; cases second_first) auto
  then show ?thesis
    using assms(1,2) ne by (auto simp: handler_def catch_response_def fetchEvents_def)
qed

text \<open>
  The theorem where the first fetch is rejected with an \<^verbatim>\<open>Error\<close> and the second returns
  a feed of one event.
\<close>

theorem fetch_failure_all_or_nothing_witness:
  "handler (Some ''https://example.org/a.ics'') (Some ''https://example.org/b.ics'')
     (Inl (Error ''getaddrinfo ENOTFOUND'')) (Inr example_feedB) False =
     (\<lparr> status = 500,
        json = ErrorBody MSG_FETCH_FAILED (Some ''getaddrinfo ENOTFOUND'') \<rparr>,
      [''https://example.org/a.ics'', ''https://example.org/b.ics''])
   \<and> fetchEvents (fst (handler (Some ''https://example.org/a.ics'')
        (Some ''https://example.org/b.ics'')
        (Inl (Error ''getaddrinfo ENOTFOUND'')) (Inr example_feedB) False))
       = Inl MSG_FETCH_FAILED"
  using fetch_failure_all_or_nothing [of "''https://example.org/a.ics''"
      "''https://example.org/b.ics''" "Inl (Error ''getaddrinfo ENOTFOUND'')"
      "Inr example_feedB" False]
  by auto

text \<open>
  Two fetches rejected with different reasons that are not \<^verbatim>\<open>Error\<close> objects get the
  same response: \<^verbatim>\<open>details\<close> is the fixed text, and the reason is not in it.
\<close>

theorem fetch_failure_counterexample:
  "fst (handler (Some ''https://example.org/a.ics'') (Some ''https://example.org/b.ics'')
          (Inl (NotAnError ''timeout'')) (Inr []) False) =
     \<lparr> status = 500, json = ErrorBody MSG_FETCH_FAILED (Some MSG_UNKNOWN_ERROR) \<rparr>
   \<and> fst (handler (Some ''https://example.org/a.ics'') (Some ''https://example.org/b.ics'')
          (Inl (NotAnError ''connection refused'')) (Inr []) False) =
     \<lparr> status = 500, json = ErrorBody MSG_FETCH_FAILED (Some MSG_UNKNOWN_ERROR) \<rparr>
   \<and> NotAnError ''timeout'' \<noteq> NotAnError ''connection refused''"
  by (simp add: handler_def catch_response_def)

lemma map_throwing_Inr_D:
  "map_throwing f xs = Inr ys \<Longrightarrow> list_all2 (\<lambda>x y. f x = Inr y) xs ys"
  by (induction xs arbitrary: ys) (auto split: sum.splits)

lemma formatEvent_Inr_D:
  assumes "formatEvent source event = Inr ev"
  shows "\<exists>s e. ical_start event = Date s \<and> ical_end event = Date e
           \<and> dateTime (ev_start ev) = iso_text s \<and> dateTime (ev_end ev) = iso_text e"
proof -
  obtain s e where "ical_start event = Date s" "ical_end event = Date e"
    using assms
    by (cases "ical_start event"; cases "ical_end event") (auto simp: formatEvent_def)
  then show ?thesis
    using assms by (auto simp: formatEvent_valid)
qed

lemma formatEvents_Inr_D:
  assumes "formatEvents feed source = Inr evs" and "ev \<in> set evs"
  shows "\<exists>raw \<in> set feed. ical_type raw = ''VEVENT'' \<and> formatEvent source raw = Inr ev"
proof -
  have "list_all2 (\<lambda>raw ev. formatEvent source raw = Inr ev)
      (filter (\<lambda>event. ical_type event = ''VEVENT'') feed) evs"
    using assms(1) unfolding formatEvents_def by (rule map_throwing_Inr_D)
  with assms(2) obtain i where
    "i < length (filter (\<lambda>event. ical_type event = ''VEVENT'') feed)"
    "formatEvent source (filter (\<lambda>event. ical_type event = ''VEVENT'') feed ! i) = Inr ev"
    by (auto simp: list_all2_conv_all_nth in_set_conv_nth)
  then show ?thesis
    using nth_mem [of i "filter (\<lambda>event. ical_type event = ''VEVENT'') feed"] by auto
qed

lemma handler_200_D:
  assumes "fst (handler calendar1Url calendar2Url (Inr feedA) (Inr feedB) second_first) =
      \<lparr> status = 200, json = ValueBody evs \<rparr>"
  shows "\<exists>evs1 evs2. formatEvents feedA calendar1 = Inr evs1
           \<and> formatEvents feedB calendar2 = Inr evs2 \<and> evs = evs1 @ evs2"
  using assms
  by (auto simp: handler_def catch_response_def split: option.splits if_splits sum.splits)

text \<open>
  C7. For an entry whose start and end are valid dates, \<open>formatEvent\<close> returns an event
  with the entry's uid as id and its summary as subject; the start and the end are the
  texts \<^verbatim>\<open>toISOString\<close> writes for the entry's start and end (reading them gives the
  entry's instants back), each with the time zone label \<^verbatim>\<open>Asia/Tokyo\<close>; the location is
  present only when the entry has one, and then carries it as its display name; the
  description is the entry's, present or absent; and no absent field becomes an empty
  string.
\<close>

theorem normalization_mapping:
  assumes "ical_start event = Date s" and "\<bar>s\<bar> \<le> 8640000000000000"
    and "ical_end event = Date e" and "\<bar>e\<bar> \<le> 8640000000000000"
  shows "\<exists>ev. formatEvent source event = Inr ev
           \<and> ev_id ev = ical_uid event
           \<and> ev_subject ev = ical_summary event
           \<and> dateTime (ev_start ev) = iso_text s
           \<and> Date_parse (dateTime (ev_start ev)) = ical_start event
           \<and> timeZone (ev_start ev) = ''Asia/Tokyo''
           \<and> dateTime (ev_end ev) = iso_text e
           \<and> Date_parse (dateTime (ev_end ev)) = ical_end event
           \<and> timeZone (ev_end ev) = ''Asia/Tokyo''
           \<and> ev_location ev =
               (case ical_location event of
                  None \<Rightarrow> None
                | Some l \<Rightarrow> if l = [] then None else Some \<lparr> displayName = l \<rparr>)
           \<and> (ev_location ev \<noteq> None \<longrightarrow> ical_location event \<noteq> None)
           \<and> ev_location ev \<noteq> Some \<lparr> displayName = [] \<rparr>
           \<and> ev_description ev = ical_description event
           \<and> ev_source ev = source"
  using assms
  by (auto simp: formatEvent_valid Date_parse_iso_text split: option.splits)

text \<open>The theorem at the meeting of the examples.\<close>

theorem normalization_mapping_witness:
  "formatEvent calendar1 example_meeting = Inr example_meeting_event
   \<and> Date_parse (dateTime (ev_start example_meeting_event)) = Date 1709596200000
   \<and> Date_parse (dateTime (ev_end example_meeting_event)) = Date 1709601600000"
proof -
  from normalization_mapping [of example_meeting 1709596200000 1709601600000 calendar1]
  obtain ev where ev: "formatEvent calendar1 example_meeting = Inr ev"
    "Date_parse (dateTime (ev_start ev)) = ical_start example_meeting"
    "Date_parse (dateTime (ev_end ev)) = ical_end example_meeting"
    by (auto simp: example_meeting_def)
  from ev(1) have "ev = example_meeting_event"
    by (simp add: format_meeting)
  with ev show ?thesis
    by (simp add: example_meeting_def)
qed

text \<open>
  C8, as the code has it. Every event of the aggregator's output has the start and the
  end of a timed entry of one of the feeds, unchanged: the aggregator compares nothing,
  and the start of an event precedes its end exactly when that holds in the feed.
\<close>

theorem start_and_end_carried:
  assumes "fst (handler calendar1Url calendar2Url (Inr feedA) (Inr feedB) second_first) =
      \<lparr> status = 200, json = ValueBody evs \<rparr>"
    and "\<forall>raw \<in> set (feedA @ feedB). inRange (ical_start raw) \<and> inRange (ical_end raw)"
    and "ev \<in> set evs"
  shows "\<exists>raw \<in> set (feedA @ feedB). \<exists>s e.
           ical_type raw = ''VEVENT'' \<and> ical_start raw = Date s \<and> ical_end raw = Date e
           \<and> Date_parse (dateTime (ev_start ev)) = Date s
           \<and> Date_parse (dateTime (ev_end ev)) = Date e"
proof -
  from handler_200_D [OF assms(1)] obtain evs1 evs2 where
    f: "formatEvents feedA calendar1 = Inr evs1" "formatEvents feedB calendar2 = Inr evs2"
      "evs = evs1 @ evs2"
    by blast
  from assms(3) f obtain raw source where
    r: "raw \<in> set (feedA @ feedB)" "ical_type raw = ''VEVENT''"
      "formatEvent source raw = Inr ev"
    using formatEvents_Inr_D [OF f(1), of ev] formatEvents_Inr_D [OF f(2), of ev] by auto
  from formatEvent_Inr_D [OF r(3)] obtain s e where
    se: "ical_start raw = Date s" "ical_end raw = Date e"
      "dateTime (ev_start ev) = iso_text s" "dateTime (ev_end ev) = iso_text e"
    by blast
  have "inRange (ical_start raw)" "inRange (ical_end raw)"
    using assms(2) r(1) by blast+
  then have "\<bar>s\<bar> \<le> 8640000000000000" "\<bar>e\<bar> \<le> 8640000000000000"
    by (simp_all add: inRange_def se(1,2))
  then have "Date_parse (dateTime (ev_start ev)) = Date s"
    "Date_parse (dateTime (ev_end ev)) = Date e"
    by (simp_all add: se Date_parse_iso_text)
  with r se show ?thesis by blast
qed

lemma handler_example_feedA:
  "handler (Some ''https://example.org/a.ics'') (Some ''https://example.org/b.ics'')
     (Inr example_feedA) (Inr []) False =
     (\<lparr> status = 200, json = ValueBody [example_meeting_event] \<rparr>,
      [''https://example.org/a.ics'', ''https://example.org/b.ics''])"
proof -
  have "formatEvents example_feedA calendar1 = Inr [example_meeting_event]"
    by (simp add: formatEvents_def example_feedA_def format_meeting)
      (simp add: example_meeting_def)
  then show ?thesis
    by (simp add: handler_def formatEvents_def)
qed

text \<open>The theorem at feed A of the examples and an empty feed B.\<close>

theorem start_and_end_carried_witness:
  "Date_parse (dateTime (ev_start example_meeting_event)) = Date 1709596200000
   \<and> Date_parse (dateTime (ev_end example_meeting_event)) = Date 1709601600000"
proof -
  have h: "fst (handler (Some ''https://example.org/a.ics'')
      (Some ''https://example.org/b.ics'') (Inr example_feedA) (Inr []) False) =
      \<lparr> status = 200, json = ValueBody [example_meeting_event] \<rparr>"
    by (simp add: handler_example_feedA)
  have r: "\<forall>raw \<in> set (example_feedA @ []).
      inRange (ical_start raw) \<and> inRange (ical_end raw)"
    by (simp add: example_feedA_def example_meeting_def inRange_def)
  have m: "example_meeting_event \<in> set [example_meeting_event]"
    by simp
  from start_and_end_carried [OF h r m] obtain raw s e where
    raw: "raw \<in> set (example_feedA @ [])" "ical_type raw = ''VEVENT''"
      "ical_start raw = Date s" "ical_end raw = Date e"
      "Date_parse (dateTime (ev_start example_meeting_event)) = Date s"
      "Date_parse (dateTime (ev_end example_meeting_event)) = Date e"
    by blast
  from raw(1,2) have "raw = example_meeting"
    by (auto simp: example_feedA_def)
  with raw(3,4) have "s = 1709596200000" "e = 1709601600000"
    by (simp_all add: example_meeting_def)
  with raw(5,6) show ?thesis
    by simp
qed

text \<open>
  An entry that ends before it starts goes through: the event in the output starts at
  01:20Z and ends at 23:50Z of the day before.
\<close>

theorem start_before_end_counterexample:
  "fst (handler (Some ''https://example.org/a.ics'') (Some ''https://example.org/b.ics'')
          (Inr [example_reversed]) (Inr []) False) =
     \<lparr> status = 200,
       json = ValueBody
         [\<lparr> ev_id = ''r1'', ev_subject = ''Reversed'',
            ev_start = \<lparr> dateTime = ''2024-03-05T01:20:00.000Z'', timeZone = ''Asia/Tokyo'' \<rparr>,
            ev_end = \<lparr> dateTime = ''2024-03-04T23:50:00.000Z'', timeZone = ''Asia/Tokyo'' \<rparr>,
            ev_location = None, ev_description = None, ev_source = calendar1 \<rparr>] \<rparr>
   \<and> Date_parse ''2024-03-05T01:20:00.000Z'' = Date 1709601600000
   \<and> Date_parse ''2024-03-04T23:50:00.000Z'' = Date 1709596200000
   \<and> \<not> (1709601600000 < (1709596200000 :: int))"
proof -
  have "formatEvents [example_reversed] calendar1 =
      Inr [\<lparr> ev_id = ''r1'', ev_subject = ''Reversed'',
            ev_start = \<lparr> dateTime = ''2024-03-05T01:20:00.000Z'', timeZone = ''Asia/Tokyo'' \<rparr>,
            ev_end = \<lparr> dateTime = ''2024-03-04T23:50:00.000Z'', timeZone = ''Asia/Tokyo'' \<rparr>,
            ev_location = None, ev_description = None, ev_source = calendar1 \<rparr>]"
    by (simp add: formatEvents_def formatEvent_def example_reversed_def
        iso_1709596200000 iso_1709601600000)
  then have 1: "fst (handler (Some ''https://example.org/a.ics'')
          (Some ''https://example.org/b.ics'') (Inr [example_reversed]) (Inr []) False) =
     \<lparr> status = 200,
       json = ValueBody
         [\<lparr> ev_id = ''r1'', ev_subject = ''Reversed'',
            ev_start = \<lparr> dateTime = ''2024-03-05T01:20:00.000Z'', timeZone = ''Asia/Tokyo'' \<rparr>,
            ev_end = \<lparr> dateTime = ''2024-03-04T23:50:00.000Z'', timeZone = ''Asia/Tokyo'' \<rparr>,
            ev_location = None, ev_description = None, ev_source = calendar1 \<rparr>] \<rparr>"
    by (simp add: handler_def formatEvents_def)
  have "Date_parse (iso_text 1709601600000) = Date 1709601600000"
    "Date_parse (iso_text 1709596200000) = Date 1709596200000"
    by (simp_all add: Date_parse_iso_text)
  then have 2: "Date_parse ''2024-03-05T01:20:00.000Z'' = Date 1709601600000"
    "Date_parse ''2024-03-04T23:50:00.000Z'' = Date 1709596200000"
    by (simp_all only: iso_1709596200000 iso_1709601600000)
  show ?thesis
    using 1 2 by simp
qed

section \<open>The cells of the timetable\<close>

lemma getEventsForTimeSlot_filter:
  "getEventsForTimeSlot z events day slot = filter (startsInCell z day slot) events"
proof -
  have "(let eventDate = Date_parse (dateTime (ev_start ev));
            eventHour = getHours z eventDate;
            eventMinute = getMinutes z eventDate
        in strict_eq (getDate z eventDate) (getDate z day)
           \<and> strict_eq (getMonth z eventDate) (getMonth z day)
           \<and> strict_eq (getFullYear z eventDate) (getFullYear z day)
           \<and> strict_eq eventHour (Num (startHour slot))
           \<and> strict_eq eventMinute (Num (startMinute slot)))
        = startsInCell z day slot ev" for ev
    by (cases "Date_parse (dateTime (ev_start ev))"; cases day)
      (auto simp: startsInCell_def localFields_def Let_def getDate_def getMonth_def
        getFullYear_def getHours_def getMinutes_def)
  then show ?thesis
    by (simp add: getEventsForTimeSlot_def)
qed

lemma tableCells_nth:
  "i < length (getDaysInMonth z currentDate) \<Longrightarrow> j < length slots \<Longrightarrow>
     tableCells z slots events currentDate ! i ! j =
       getEventsForTimeSlot z events (getDaysInMonth z currentDate ! i) (slots ! j)"
  by (simp add: tableCells_def)






lemma TIME_SLOTS_distinct:
  "distinct (map (\<lambda>s. (startHour s, startMinute s)) TIME_SLOTS)"
  "distinct (map (\<lambda>s. (startHour s, startMinute s)) TIME_SLOTS_part_000)"
  by (simp_all add: TIME_SLOTS_def TIME_SLOTS_part_000_def)

lemma length_TIME_SLOTS: "length TIME_SLOTS = 6" "length TIME_SLOTS_part_000 = 7"
  by (simp_all add: TIME_SLOTS_def TIME_SLOTS_part_000_def)

lemma slot_index_unique:
  assumes "distinct (map (\<lambda>s. (startHour s, startMinute s)) slots)"
    and "j < length slots" "j' < length slots"
    and "startHour (slots ! j) = startHour (slots ! j')"
    and "startMinute (slots ! j) = startMinute (slots ! j')"
  shows "j = j'"
proof -
  have "map (\<lambda>s. (startHour s, startMinute s)) slots ! j =
      map (\<lambda>s. (startHour s, startMinute s)) slots ! j'"
    using assms(2-5) by simp
  then show ?thesis
    using assms(1-3) by (simp add: nth_eq_iff_index_eq del: nth_map)
qed

lemma first_period:
  assumes "slots = TIME_SLOTS \<or> slots = TIME_SLOTS_part_000" and "j < length slots"
  shows "startHour (slots ! j) = 8 \<and> startMinute (slots ! j) = 50 \<longleftrightarrow> j = 0"
proof
  assume a: "startHour (slots ! j) = 8 \<and> startMinute (slots ! j) = 50"
  have d: "distinct (map (\<lambda>s. (startHour s, startMinute s)) slots)"
    using assms(1) TIME_SLOTS_distinct by auto
  have 0: "0 < length slots" "startHour (slots ! 0) = 8" "startMinute (slots ! 0) = 50"
    using assms(1) by (auto simp: TIME_SLOTS_def TIME_SLOTS_part_000_def)
  show "j = 0"
    using d assms(2) 0(1) by (rule slot_index_unique) (simp_all add: a 0)
next
  assume "j = 0"
  then show "startHour (slots ! j) = 8 \<and> startMinute (slots ! j) = 50"
    using assms(1) by (auto simp: TIME_SLOTS_def TIME_SLOTS_part_000_def)
qed





lemma days_nth_fields:
  assumes days: "getDaysInMonth (fixedZone tza) cur = map (\<lambda>k. Date (localMidnight tza y m k)) [1..n]"
    and "n = DaysInMonth y m" and "0 \<le> m" and "m \<le> 11" and "i < nat n"
  shows "localFields (fixedZone tza) (getDaysInMonth (fixedZone tza) cur ! i) = Some (y, m, int i + 1, 0, 0)"
proof -
  have k: "1 \<le> int i + 1" "int i + 1 \<le> DaysInMonth y m"
    using assms(2,5) by simp_all
  have "getDaysInMonth (fixedZone tza) cur ! i = Date (localMidnight tza y m (int i + 1))"
    using assms(5) by (simp add: days add.commute)
  moreover have "localFields (fixedZone tza) (Date (localMidnight tza y m (int i + 1))) =
      Some (y, m, int i + 1, 0, 0)"
  proof -
    have d: "Day (LocalTime (fixedZone tza) (localMidnight tza y m (int i + 1))) = MakeDay y m (int i + 1)"
      by (simp add: localMidnight_def LocalTime_midnight Day_of_midnight)
    have "HourFromTime (LocalTime (fixedZone tza) (localMidnight tza y m (int i + 1))) = 0"
      "MinFromTime (LocalTime (fixedZone tza) (localMidnight tza y m (int i + 1))) = 0"
      by (simp_all add: localMidnight_def LocalTime_midnight midnight_time)
    then show ?thesis
      using fields_of_MakeDay [OF assms(3,4) k d] by (simp add: localFields_def)
  qed
  ultimately show ?thesis by simp
qed

lemma cell_of_single:
  assumes days: "getDaysInMonth (fixedZone tza) cur = map (\<lambda>k. Date (localMidnight tza y m k)) [1..n]"
    and "n = DaysInMonth y m" and "0 \<le> m" and "m \<le> 11"
    and ev: "localFields (fixedZone tza) (Date_parse (dateTime (ev_start ev))) = Some (y, m, d, h, mi)"
    and "i < nat n" and "j < length slots"
  shows "tableCells (fixedZone tza) slots [ev] cur ! i ! j =
      (if int i + 1 = d \<and> startHour (slots ! j) = h \<and> startMinute (slots ! j) = mi
       then [ev] else [])"
proof -
  have l: "i < length (getDaysInMonth (fixedZone tza) cur)"
    using assms(6) by (simp add: days)
  have f: "localFields (fixedZone tza) (getDaysInMonth (fixedZone tza) cur ! i) = Some (y, m, int i + 1, 0, 0)"
    using assms(1-4,6) by (rule days_nth_fields)
  have "startsInCell (fixedZone tza) (getDaysInMonth (fixedZone tza) cur ! i) (slots ! j) ev \<longleftrightarrow>
      int i + 1 = d \<and> startHour (slots ! j) = h \<and> startMinute (slots ! j) = mi"
    by (auto simp: startsInCell_def ev f)
  then show ?thesis
    using l assms(7) by (simp add: tableCells_nth getEventsForTimeSlot_filter)
qed

lemma relabel_filter:
  "getEventsForTimeSlot z
     (map (\<lambda>ev. ev\<lparr> ev_start := (ev_start ev)\<lparr> timeZone := label \<rparr> \<rparr>) events) day slot =
   map (\<lambda>ev. ev\<lparr> ev_start := (ev_start ev)\<lparr> timeZone := label \<rparr> \<rparr>)
     (getEventsForTimeSlot z events day slot)"
  by (simp add: getEventsForTimeSlot_def filter_map comp_def)


section \<open>The examples in March 2024\<close>

text \<open>
  The day axis of March 2024 and the cells of the events of the examples, in a runtime at
  Tokyo's offset and in a runtime at UTC.
\<close>

lemma march_2024_tokyo:
  assumes "YearFromTime (LocalTime (fixedZone 32400000) t) = 2024" "MonthFromTime (LocalTime (fixedZone 32400000) t) = 2"
  shows "getDaysInMonth (fixedZone 32400000) (Date t) =
      map (\<lambda>k. Date (localMidnight 32400000 2024 2 k)) [1..31]"
  using getDaysInMonth_regular(1) [OF assms, simplified]
  by (simp add: calendar_eval del: upto_rec_numeral)

lemma march_2024_utc:
  assumes "YearFromTime (LocalTime (fixedZone 0) t) = 2024" "MonthFromTime (LocalTime (fixedZone 0) t) = 2"
  shows "getDaysInMonth (fixedZone 0) (Date t) = map (\<lambda>k. Date (localMidnight 0 2024 2 k)) [1..31]"
  using getDaysInMonth_regular(1) [OF assms, simplified]
  by (simp add: calendar_eval del: upto_rec_numeral)

lemma march_days_tokyo:
  "getDaysInMonth (fixedZone 32400000) (Date 1709596200000) =
     map (\<lambda>k. Date (localMidnight 32400000 2024 2 k)) [1..31]"
  using march_2024 by (intro march_2024_tokyo) simp_all

lemma march_2024_at_utc: "YearFromTime (LocalTime (fixedZone 0) 1709596200000) = 2024
  \<and> MonthFromTime (LocalTime (fixedZone 0) 1709596200000) = 2
  \<and> DateFromTime (LocalTime (fixedZone 0) 1709596200000) = 4"
  by (rule fields_at) (simp_all add: calendar_eval)

lemma march_days_utc:
  "getDaysInMonth (fixedZone 0) (Date 1709596200000) = map (\<lambda>k. Date (localMidnight 0 2024 2 k)) [1..31]"
  using march_2024_at_utc by (intro march_2024_utc) simp_all

lemma meeting_fields_tokyo:
  "localFields (fixedZone 32400000) (Date 1709596200000) = Some (2024, 2, 5, 8, 50)"
  using march_2024
  by (simp add: localFields_def)
    (simp add: LocalTime_fixedZone HourFromTime_def MinFromTime_def msPerHour_def msPerMinute_def)

lemma meeting_fields_utc:
  "localFields (fixedZone 0) (Date 1709596200000) = Some (2024, 2, 4, 23, 50)"
  using march_2024_at_utc
  by (simp add: localFields_def)
    (simp add: LocalTime_fixedZone HourFromTime_def MinFromTime_def msPerHour_def msPerMinute_def)


lemma meeting_event_start:
  "Date_parse (dateTime (ev_start example_meeting_event)) = Date 1709596200000"
proof -
  have "Date_parse (iso_text 1709596200000) = Date 1709596200000"
    by (simp add: Date_parse_iso_text)
  then show ?thesis
    by (simp add: example_meeting_event_def iso_1709596200000)
qed

lemma meeting_cell_tokyo:
  assumes "i < 31" "j < length TIME_SLOTS"
  shows "tableCells (fixedZone 32400000) TIME_SLOTS [example_meeting_event] (Date 1709596200000) ! i ! j =
      (if i = 4 \<and> j = 0 then [example_meeting_event] else [])"
proof -
  have n: "(31::int) = DaysInMonth 2024 2"
    by (simp add: DaysInMonth_def)
  have p: "localFields (fixedZone 32400000) (Date_parse (dateTime (ev_start example_meeting_event))) =
      Some (2024, 2, 5, 8, 50)"
    by (simp add: meeting_event_start meeting_fields_tokyo)
  have "tableCells (fixedZone 32400000) TIME_SLOTS [example_meeting_event] (Date 1709596200000) ! i ! j =
      (if int i + 1 = 5 \<and> startHour (TIME_SLOTS ! j) = 8 \<and> startMinute (TIME_SLOTS ! j) = 50
       then [example_meeting_event] else [])"
    using march_days_tokyo n _ _ p _ assms(2) by (rule cell_of_single) (use assms(1) in simp_all)
  moreover have "int i + 1 = 5 \<longleftrightarrow> i = 4"
    by auto
  ultimately show ?thesis
    using first_period [of TIME_SLOTS j] assms(2) by simp
qed

lemma meeting_cell_utc:
  assumes "i < 31" "j < length TIME_SLOTS"
  shows "tableCells (fixedZone 0) TIME_SLOTS [example_meeting_event] (Date 1709596200000) ! i ! j = []"
proof -
  have n: "(31::int) = DaysInMonth 2024 2"
    by (simp add: DaysInMonth_def)
  have p: "localFields (fixedZone 0) (Date_parse (dateTime (ev_start example_meeting_event))) =
      Some (2024, 2, 4, 23, 50)"
    by (simp add: meeting_event_start meeting_fields_utc)
  have "tableCells (fixedZone 0) TIME_SLOTS [example_meeting_event] (Date 1709596200000) ! i ! j =
      (if int i + 1 = 4 \<and> startHour (TIME_SLOTS ! j) = 23 \<and> startMinute (TIME_SLOTS ! j) = 50
       then [example_meeting_event] else [])"
    using march_days_utc n _ _ p _ assms(2) by (rule cell_of_single) (use assms(1) in simp_all)
  moreover have "\<forall>s \<in> set TIME_SLOTS. startHour s \<noteq> 23"
    by (simp add: TIME_SLOTS_def)
  then have "startHour (TIME_SLOTS ! j) \<noteq> 23"
    using assms(2) nth_mem by blast
  ultimately show ?thesis
    by simp
qed

lemma iso_1709628600000: "iso_text 1709628600000 = ''2024-03-05T08:50:00.000Z''"
proof -
  have "YearFromTime 1709628600000 = 2024 \<and> MonthFromTime 1709628600000 = 2
      \<and> DateFromTime 1709628600000 = 5"
    by (rule fields_at) (simp_all add: calendar_eval)
  then show ?thesis
    by (simp add: text_eval)
qed

lemma iso_1709634000000: "iso_text 1709634000000 = ''2024-03-05T10:20:00.000Z''"
proof -
  have "YearFromTime 1709634000000 = 2024 \<and> MonthFromTime 1709634000000 = 2
      \<and> DateFromTime 1709634000000 = 5"
    by (rule fields_at) (simp_all add: calendar_eval)
  then show ?thesis
    by (simp add: text_eval)
qed

lemma format_evening: "formatEvent calendar1 example_evening = Inr example_evening_event"
  by (simp add: formatEvent_def example_evening_def example_evening_event_def
      iso_1709628600000 iso_1709634000000)

lemma evening_event_start:
  "Date_parse (dateTime (ev_start example_evening_event)) = Date 1709628600000"
proof -
  have "Date_parse (iso_text 1709628600000) = Date 1709628600000"
    by (simp add: Date_parse_iso_text)
  then show ?thesis
    by (simp add: example_evening_event_def iso_1709628600000)
qed

lemma evening_fields_utc:
  "localFields (fixedZone 0) (Date 1709628600000) = Some (2024, 2, 5, 8, 50)"
proof -
  have "YearFromTime (LocalTime (fixedZone 0) 1709628600000) = 2024
      \<and> MonthFromTime (LocalTime (fixedZone 0) 1709628600000) = 2
      \<and> DateFromTime (LocalTime (fixedZone 0) 1709628600000) = 5"
    by (rule fields_at) (simp_all add: calendar_eval)
  then show ?thesis
    by (simp add: localFields_def)
      (simp add: LocalTime_fixedZone HourFromTime_def MinFromTime_def msPerHour_def msPerMinute_def)
qed

lemma evening_fields_tokyo:
  "localFields (fixedZone 32400000) (Date 1709628600000) = Some (2024, 2, 5, 17, 50)"
proof -
  have "YearFromTime (LocalTime (fixedZone 32400000) 1709628600000) = 2024
      \<and> MonthFromTime (LocalTime (fixedZone 32400000) 1709628600000) = 2
      \<and> DateFromTime (LocalTime (fixedZone 32400000) 1709628600000) = 5"
    by (rule fields_at) (simp_all add: calendar_eval)
  then show ?thesis
    by (simp add: localFields_def)
      (simp add: LocalTime_fixedZone HourFromTime_def MinFromTime_def msPerHour_def msPerMinute_def)
qed

lemma evening_cell_utc:
  "tableCells (fixedZone 0) TIME_SLOTS [example_evening_event] (Date 1709596200000) ! 4 ! 0 =
     [example_evening_event]"
proof -
  have n: "(31::int) = DaysInMonth 2024 2"
    by (simp add: DaysInMonth_def)
  have p: "localFields (fixedZone 0) (Date_parse (dateTime (ev_start example_evening_event))) =
      Some (2024, 2, 5, 8, 50)"
    by (simp add: evening_event_start evening_fields_utc)
  have "tableCells (fixedZone 0) TIME_SLOTS [example_evening_event] (Date 1709596200000) ! 4 ! 0 =
      (if int 4 + 1 = 5 \<and> startHour (TIME_SLOTS ! 0) = 8 \<and> startMinute (TIME_SLOTS ! 0) = 50
       then [example_evening_event] else [])"
    using march_days_utc n _ _ p by (rule cell_of_single) (simp_all add: length_TIME_SLOTS)
  then show ?thesis
    by (simp add: TIME_SLOTS_def)
qed

section \<open>The example in December 2011\<close>








section \<open>The claims about the cells\<close>




text \<open>
  C2, as the code has it: in a runtime whose local time is nine hours ahead of UTC. Feed A
  has one timed entry, titled Meeting, from 2024-03-04T23:50Z (08:50 in Tokyo on
  2024-03-05) to 2024-03-05T01:20Z, and feed B is empty. The handler returns one event,
  tagged \<open>calendar1\<close>. For a reference date in March 2024, with either version of the table
  of periods, the table has 31 rows, and the event is in the cell of row 4 (day 5) and
  column 0 (the period from 08:50 to 10:20) and every other cell is empty.
\<close>

theorem meeting_scenario:
  assumes "url1 \<noteq> []" and "url2 \<noteq> []"
    and "filter (\<lambda>event. ical_type event = ''VEVENT'') feedA = [meeting]"
    and "ical_summary meeting = ''Meeting''"
    and "ical_start meeting = Date 1709596200000"
    and "ical_end meeting = Date 1709601600000"
    and "YearFromTime (LocalTime (fixedZone 32400000) t) = 2024"
    and "MonthFromTime (LocalTime (fixedZone 32400000) t) = 2"
    and "slots = TIME_SLOTS \<or> slots = TIME_SLOTS_part_000"
  shows "\<exists>ev.
           handler (Some url1) (Some url2) (Inr feedA) (Inr []) second_first =
             (\<lparr> status = 200, json = ValueBody [ev] \<rparr>, [url1, url2])
           \<and> ev_source ev = calendar1 \<and> ev_subject ev = ''Meeting''
           \<and> dateTime (ev_start ev) = ''2024-03-04T23:50:00.000Z''
           \<and> dateTime (ev_end ev) = ''2024-03-05T01:20:00.000Z''
           \<and> startHour (slots ! 0) = 8 \<and> startMinute (slots ! 0) = 50
           \<and> endHour (slots ! 0) = 10 \<and> endMinute (slots ! 0) = 20
           \<and> length (tableCells (fixedZone 32400000) slots [ev] (Date t)) = 31
           \<and> (\<forall>i < 31. length (tableCells (fixedZone 32400000) slots [ev] (Date t) ! i) = length slots
                \<and> (\<forall>j < length slots.
                      tableCells (fixedZone 32400000) slots [ev] (Date t) ! i ! j =
                        (if i = 4 \<and> j = 0 then [ev] else [])))"
proof -
  obtain ev where ev: "formatEvent calendar1 meeting = Inr ev"
    "ev_source ev = calendar1" "ev_subject ev = ''Meeting''"
    "dateTime (ev_start ev) = iso_text 1709596200000"
    "dateTime (ev_end ev) = iso_text 1709601600000"
    using assms(4-6) by (simp add: formatEvent_valid)
  have "formatEvents feedA calendar1 = Inr [ev]"
    by (simp add: formatEvents_def assms(3) ev(1))
  then have h: "handler (Some url1) (Some url2) (Inr feedA) (Inr []) second_first =
      (\<lparr> status = 200, json = ValueBody [ev] \<rparr>, [url1, url2])"
    using assms(1,2) by (simp add: handler_def formatEvents_def)
  have p: "localFields (fixedZone 32400000) (Date_parse (dateTime (ev_start ev))) = Some (2024, 2, 5, 8, 50)"
    by (simp add: ev(4) Date_parse_iso_text meeting_fields_tokyo)
  note days = march_2024_tokyo [OF assms(7,8)]
  have n: "(31::int) = DaysInMonth 2024 2"
    by (simp add: DaysInMonth_def)
  have cell: "tableCells (fixedZone 32400000) slots [ev] (Date t) ! i ! j = (if i = 4 \<and> j = 0 then [ev] else [])"
    if "i < 31" "j < length slots" for i j
  proof -
    have "tableCells (fixedZone 32400000) slots [ev] (Date t) ! i ! j =
        (if int i + 1 = 5 \<and> startHour (slots ! j) = 8 \<and> startMinute (slots ! j) = 50
         then [ev] else [])"
      using days n _ _ p _ that(2) by (rule cell_of_single) (use that(1) in simp_all)
    moreover have "int i + 1 = 5 \<longleftrightarrow> i = 4"
      by auto
    ultimately show ?thesis
      using first_period [OF assms(9) that(2)] by simp
  qed
  have len: "length (tableCells (fixedZone 32400000) slots [ev] (Date t)) = 31"
    "length (tableCells (fixedZone 32400000) slots [ev] (Date t) ! i) = length slots" if "i < 31" for i
    using that by (simp_all add: tableCells_def days)
  have s0: "startHour (slots ! 0) = 8 \<and> startMinute (slots ! 0) = 50
      \<and> endHour (slots ! 0) = 10 \<and> endMinute (slots ! 0) = 20"
    using assms(9) by (auto simp: TIME_SLOTS_def TIME_SLOTS_part_000_def)
  have "length (tableCells (fixedZone 32400000) slots [ev] (Date t)) = 31"
    by (simp add: tableCells_def days)
  with h ev(2,3,4,5) s0 cell len(2) show ?thesis
    by (auto simp: iso_1709596200000 iso_1709601600000)
qed

text \<open>The theorem at feed A of the examples, seen from Tokyo on the evening of 2024-03-04 (UTC).\<close>

theorem meeting_scenario_witness:
  "handler (Some ''https://example.org/a.ics'') (Some ''https://example.org/b.ics'')
     (Inr example_feedA) (Inr []) False =
     (\<lparr> status = 200, json = ValueBody [example_meeting_event] \<rparr>,
      [''https://example.org/a.ics'', ''https://example.org/b.ics''])
   \<and> length (tableCells (fixedZone 32400000) TIME_SLOTS [example_meeting_event] (Date 1709596200000)) = 31
   \<and> tableCells (fixedZone 32400000) TIME_SLOTS [example_meeting_event] (Date 1709596200000) ! 4 ! 0 =
       [example_meeting_event]
   \<and> tableCells (fixedZone 32400000) TIME_SLOTS [example_meeting_event] (Date 1709596200000) ! 4 ! 1 = []
   \<and> tableCells (fixedZone 32400000) TIME_SLOTS [example_meeting_event] (Date 1709596200000) ! 3 ! 0 = []"
proof -
  have f: "filter (\<lambda>event. ical_type event = ''VEVENT'') example_feedA = [example_meeting]"
    by (simp add: example_feedA_def) (simp add: example_meeting_def)
  have m: "ical_summary example_meeting = ''Meeting''"
    "ical_start example_meeting = Date 1709596200000"
    "ical_end example_meeting = Date 1709601600000"
    by (simp_all add: example_meeting_def)
  have u: "''https://example.org/a.ics'' \<noteq> []" "''https://example.org/b.ics'' \<noteq> []"
    by simp_all
  have y: "YearFromTime (LocalTime (fixedZone 32400000) 1709596200000) = 2024"
    "MonthFromTime (LocalTime (fixedZone 32400000) 1709596200000) = 2"
    using march_2024 by simp_all
  have s: "TIME_SLOTS = TIME_SLOTS \<or> TIME_SLOTS = TIME_SLOTS_part_000"
    by simp
  from meeting_scenario [OF u f m y s, of False] obtain ev where
    ev: "handler (Some ''https://example.org/a.ics'') (Some ''https://example.org/b.ics'')
        (Inr example_feedA) (Inr []) False =
        (\<lparr> status = 200, json = ValueBody [ev] \<rparr>,
         [''https://example.org/a.ics'', ''https://example.org/b.ics''])"
      "length (tableCells (fixedZone 32400000) TIME_SLOTS [ev] (Date 1709596200000)) = 31"
      "\<forall>i < 31. length (tableCells (fixedZone 32400000) TIME_SLOTS [ev] (Date 1709596200000) ! i)
          = length TIME_SLOTS
        \<and> (\<forall>j < length TIME_SLOTS.
              tableCells (fixedZone 32400000) TIME_SLOTS [ev] (Date 1709596200000) ! i ! j =
                (if i = 4 \<and> j = 0 then [ev] else []))"
    by blast
  from ev(1) have e: "ev = example_meeting_event"
    by (simp add: handler_example_feedA)
  have "tableCells (fixedZone 32400000) TIME_SLOTS [ev] (Date 1709596200000) ! 4 ! 0 = [ev]"
    "tableCells (fixedZone 32400000) TIME_SLOTS [ev] (Date 1709596200000) ! 4 ! 1 = []"
    "tableCells (fixedZone 32400000) TIME_SLOTS [ev] (Date 1709596200000) ! 3 ! 0 = []"
    using ev(3) by (simp_all add: length_TIME_SLOTS)
  with ev(1,2) show ?thesis
    by (simp add: e)
qed

text \<open>
  The same feeds in a runtime whose local time is UTC: the reference date is in March
  2024 there too, the table has 31 rows, and the cell of day 5 and the first period is
  empty.
\<close>

theorem meeting_scenario_counterexample:
  "handler (Some ''https://example.org/a.ics'') (Some ''https://example.org/b.ics'')
     (Inr example_feedA) (Inr []) False =
     (\<lparr> status = 200, json = ValueBody [example_meeting_event] \<rparr>,
      [''https://example.org/a.ics'', ''https://example.org/b.ics''])
   \<and> ev_subject example_meeting_event = ''Meeting''
   \<and> ev_source example_meeting_event = calendar1
   \<and> YearFromTime (LocalTime (fixedZone 0) 1709596200000) = 2024
   \<and> MonthFromTime (LocalTime (fixedZone 0) 1709596200000) = 2
   \<and> length (tableCells (fixedZone 0) TIME_SLOTS [example_meeting_event] (Date 1709596200000)) = 31
   \<and> tableCells (fixedZone 0) TIME_SLOTS [example_meeting_event] (Date 1709596200000) ! 4 ! 0 = []"
proof -
  have "length (tableCells (fixedZone 0) TIME_SLOTS [example_meeting_event] (Date 1709596200000)) = 31"
    by (simp add: tableCells_def march_days_utc)
  moreover have "tableCells (fixedZone 0) TIME_SLOTS [example_meeting_event] (Date 1709596200000) ! 4 ! 0 = []"
    by (rule meeting_cell_utc) (simp_all add: length_TIME_SLOTS)
  ultimately show ?thesis
    using march_2024_at_utc by (simp add: handler_example_feedA example_meeting_event_def)
qed

text \<open>
  C9. \<open>getEventsForTimeSlot\<close> does not read the time zone label: changing the label of
  every event changes nothing but the label in the result. The start which the aggregator
  stores is the UTC text of the instant, with the label \<^verbatim>\<open>Asia/Tokyo\<close>. A cell holds the
  events whose start, read in the local time zone of the runtime, matches the day and
  the period. So the meeting of the examples, which starts at 08:50 in Tokyo, the start
  of the first period, is in the cell of day 5 and the first period in a runtime at
  Tokyo's offset and in no cell of the March table in a runtime at UTC; and the evening
  event, which starts at 17:50 in Tokyo, the start of no period, is in that cell in a
  runtime at UTC.
\<close>

theorem binning_reads_runtime_zone:
  "getEventsForTimeSlot z
     (map (\<lambda>ev. ev\<lparr> ev_start := (ev_start ev)\<lparr> timeZone := label \<rparr> \<rparr>) events) day slot =
     map (\<lambda>ev. ev\<lparr> ev_start := (ev_start ev)\<lparr> timeZone := label \<rparr> \<rparr>)
       (getEventsForTimeSlot z events day slot)
   \<and> (formatEvent source raw = Inr ev \<longrightarrow>
        (\<exists>s. ical_start raw = Date s \<and> dateTime (ev_start ev) = iso_text s
           \<and> timeZone (ev_start ev) = ''Asia/Tokyo''))
   \<and> getEventsForTimeSlot z events day slot = filter (startsInCell z day slot) events
   \<and> localFields (fixedZone 32400000) (Date_parse (dateTime (ev_start example_meeting_event))) =
       Some (2024, 2, 5, startHour (TIME_SLOTS ! 0), startMinute (TIME_SLOTS ! 0))
   \<and> tableCells (fixedZone 32400000) TIME_SLOTS [example_meeting_event] (Date 1709596200000) ! 4 ! 0 =
       [example_meeting_event]
   \<and> length (tableCells (fixedZone 0) TIME_SLOTS [example_meeting_event] (Date 1709596200000)) = 31
   \<and> (\<forall>i < 31. \<forall>j < length TIME_SLOTS.
        tableCells (fixedZone 0) TIME_SLOTS [example_meeting_event] (Date 1709596200000) ! i ! j = [])
   \<and> localFields (fixedZone 32400000) (Date_parse (dateTime (ev_start example_evening_event))) =
       Some (2024, 2, 5, 17, 50)
   \<and> (\<forall>slot \<in> set TIME_SLOTS. (startHour slot, startMinute slot) \<noteq> (17, 50))
   \<and> tableCells (fixedZone 0) TIME_SLOTS [example_evening_event] (Date 1709596200000) ! 4 ! 0 =
       [example_evening_event]"
proof -
  have 2: "formatEvent source raw = Inr ev \<longrightarrow>
      (\<exists>s. ical_start raw = Date s \<and> dateTime (ev_start ev) = iso_text s
         \<and> timeZone (ev_start ev) = ''Asia/Tokyo'')"
  proof
    assume f: "formatEvent source raw = Inr ev"
    from formatEvent_Inr_D [OF f] obtain s e where
      s: "ical_start raw = Date s" "ical_end raw = Date e" "dateTime (ev_start ev) = iso_text s"
      by blast
    from f have "timeZone (ev_start ev) = ''Asia/Tokyo''"
      by (auto simp: formatEvent_valid [OF s(1,2)])
    with s show "\<exists>s. ical_start raw = Date s \<and> dateTime (ev_start ev) = iso_text s
        \<and> timeZone (ev_start ev) = ''Asia/Tokyo''"
      by blast
  qed
  have 4: "localFields (fixedZone 32400000) (Date_parse (dateTime (ev_start example_meeting_event))) =
      Some (2024, 2, 5, startHour (TIME_SLOTS ! 0), startMinute (TIME_SLOTS ! 0))"
    by (simp add: meeting_event_start meeting_fields_tokyo) (simp add: TIME_SLOTS_def)
  have 5: "tableCells (fixedZone 32400000) TIME_SLOTS [example_meeting_event] (Date 1709596200000) ! 4 ! 0 =
      [example_meeting_event]"
    using meeting_cell_tokyo [of 4 0] by (simp add: length_TIME_SLOTS)
  have 6: "length (tableCells (fixedZone 0) TIME_SLOTS [example_meeting_event] (Date 1709596200000)) = 31"
    by (simp add: tableCells_def march_days_utc)
  have 7: "\<forall>i < 31. \<forall>j < length TIME_SLOTS.
      tableCells (fixedZone 0) TIME_SLOTS [example_meeting_event] (Date 1709596200000) ! i ! j = []"
    using meeting_cell_utc by blast
  have 8: "localFields (fixedZone 32400000) (Date_parse (dateTime (ev_start example_evening_event))) =
      Some (2024, 2, 5, 17, 50)"
    by (simp add: evening_event_start evening_fields_tokyo)
  have 9: "\<forall>slot \<in> set TIME_SLOTS. (startHour slot, startMinute slot) \<noteq> (17, 50)"
    by (simp add: TIME_SLOTS_def)
  show ?thesis
    using relabel_filter [of z label events day slot] 2
      getEventsForTimeSlot_filter [of z events day slot] 4 5 6 7 8 9 evening_cell_utc
    by blast
qed

text \<open>The theorem at the meeting of the examples, relabelled \<^verbatim>\<open>UTC\<close>.\<close>

theorem binning_reads_runtime_zone_witness:
  "getEventsForTimeSlot (fixedZone 0)
     (map (\<lambda>ev. ev\<lparr> ev_start := (ev_start ev)\<lparr> timeZone := ''UTC'' \<rparr> \<rparr>)
        [example_meeting_event])
     (Date 1709596200000) (TIME_SLOTS ! 0) =
     map (\<lambda>ev. ev\<lparr> ev_start := (ev_start ev)\<lparr> timeZone := ''UTC'' \<rparr> \<rparr>)
       (getEventsForTimeSlot (fixedZone 0) [example_meeting_event] (Date 1709596200000) (TIME_SLOTS ! 0))
   \<and> (\<exists>s. ical_start example_meeting = Date s
         \<and> dateTime (ev_start example_meeting_event) = iso_text s
         \<and> timeZone (ev_start example_meeting_event) = ''Asia/Tokyo'')"
  using binning_reads_runtime_zone [of "fixedZone 0" "''UTC''" "[example_meeting_event]"
      "Date 1709596200000" "TIME_SLOTS ! 0" calendar1 example_meeting example_meeting_event]
    format_meeting
  by blast




end
